theory Spec2Isabelle
  imports Main "HOL-Library.Sublist"
begin

section \<open>Text primitives of the bank chatbot\<close>

text \<open>
  The chatbot of \<^verbatim>\<open>app.py\<close> works on Python strings. A string is modelled as a
  \<^typ>\<open>string\<close>, one \<^typ>\<open>char\<close> per character of ASCII text. The only non-ASCII
  literal of the source, the money-bag sign of the balance template, is kept as the four
  bytes of its UTF-8 encoding. Characters above 127 are neither letters, digits, spaces
  nor word characters in this model, and \<^verbatim>\<open>lower\<close>/\<^verbatim>\<open>upper\<close> leave them alone.
\<close>

definition ascii_lowercase :: string where
  "ascii_lowercase = ''abcdefghijklmnopqrstuvwxyz''"

definition ascii_uppercase :: string where
  "ascii_uppercase = ''ABCDEFGHIJKLMNOPQRSTUVWXYZ''"

definition digits :: string where
  "digits = ''0123456789''"

text \<open>The ASCII characters for which Python's \<^verbatim>\<open>str.isspace\<close> holds: tab, line feed,
  vertical tab, form feed, carriage return, the four separators 0x1C..0x1F and the blank.\<close>

definition whitespace :: string where
  "whitespace = [CHR 0x09, CHR 0x0A, CHR 0x0B, CHR 0x0C, CHR 0x0D,
                 CHR 0x1C, CHR 0x1D, CHR 0x1E, CHR 0x1F, CHR '' '']"

definition is_space :: "char \<Rightarrow> bool" where
  "is_space c = (c \<in> set whitespace)"

definition non_space :: "char \<Rightarrow> bool" where
  "non_space c = (c \<notin> set whitespace)"

text \<open>\<^verbatim>\<open>\d\<close> of the regular expressions.\<close>

definition is_digit :: "char \<Rightarrow> bool" where
  "is_digit c = (c \<in> set digits)"

text \<open>\<^verbatim>\<open>[A-Za-z]\<close> of the regular expressions.\<close>

definition is_alpha :: "char \<Rightarrow> bool" where
  "is_alpha c = (c \<in> set (ascii_uppercase @ ascii_lowercase))"

text \<open>\<^verbatim>\<open>\w\<close>, the characters between which \<^verbatim>\<open>\b\<close> finds no boundary.\<close>

definition is_word :: "char \<Rightarrow> bool" where
  "is_word c = (c \<in> set (ascii_uppercase @ ascii_lowercase @ digits @ ''_''))"

definition lower_char :: "char \<Rightarrow> char" where
  "lower_char c = (case map_of (zip ascii_uppercase ascii_lowercase) c of
                     Some d \<Rightarrow> d | None \<Rightarrow> c)"

definition upper_char :: "char \<Rightarrow> char" where
  "upper_char c = (case map_of (zip ascii_lowercase ascii_uppercase) c of
                     Some d \<Rightarrow> d | None \<Rightarrow> c)"

text \<open>\<^verbatim>\<open>s.lower()\<close> and \<^verbatim>\<open>s.upper()\<close>.\<close>

definition lower :: "string \<Rightarrow> string" where
  "lower s = map lower_char s"

definition upper :: "string \<Rightarrow> string" where
  "upper s = map upper_char s"

text \<open>\<^verbatim>\<open>s.strip()\<close>: leading and trailing white space removed.\<close>

definition strip :: "string \<Rightarrow> string" where
  "strip s = rev (dropWhile is_space (rev (dropWhile is_space s)))"

text \<open>\<^verbatim>\<open>s.replace(old, new)\<close> for a non-empty \<^verbatim>\<open>old\<close>: the occurrences are
  replaced from left to right and do not overlap.\<close>

function replace :: "string \<Rightarrow> string \<Rightarrow> string \<Rightarrow> string" where
  "replace old new [] = []"
| "replace old new (c # cs) =
     (if old \<noteq> [] \<and> prefix old (c # cs)
      then new @ replace old new (drop (length old) (c # cs))
      else c # replace old new cs)"
  by pat_completeness auto
termination
  by (relation "measure (\<lambda>(old, new, s). length s)") (auto simp: neq_Nil_conv)

text \<open>The maximal runs of characters satisfying \<open>P\<close>, from left to right. With
  \<^const>\<open>non_space\<close> this is \<^verbatim>\<open>s.split()\<close>, with \<^const>\<open>is_digit\<close> it is
  \<^verbatim>\<open>re.findall(r'\d+', s)\<close>, with \<^const>\<open>is_word\<close> it gives the words between the
  \<^verbatim>\<open>\b\<close> boundaries of \<open>s\<close>.\<close>

function runs :: "('a \<Rightarrow> bool) \<Rightarrow> 'a list \<Rightarrow> 'a list list" where
  "runs P [] = []"
| "runs P (c # cs) =
     (if P c then (c # takeWhile P cs) # runs P (dropWhile P cs) else runs P cs)"
  by pat_completeness auto
termination
  by (relation "measure (\<lambda>(P, s). length s)")
     (auto simp: length_dropWhile_le less_Suc_eq_le)

definition split_ws :: "string \<Rightarrow> string list" where
  "split_ws s = runs non_space s"

text \<open>\<^verbatim>\<open>sep.join(xs)\<close>.\<close>

fun join :: "string \<Rightarrow> string list \<Rightarrow> string" where
  "join sep [] = []"
| "join sep [x] = x"
| "join sep (x # y # ys) = x @ sep @ join sep (y # ys)"

text \<open>\<^verbatim>\<open>s.split(c)\<close> for a one-character separator: always at least one field.\<close>

fun split_on :: "char \<Rightarrow> string \<Rightarrow> string list" where
  "split_on c [] = [[]]"
| "split_on c (x # xs) =
     (if x = c then [] # split_on c xs
      else (case split_on c xs of [] \<Rightarrow> [[x]] | w # ws \<Rightarrow> (x # w) # ws))"

text \<open>\<^verbatim>\<open>key, val = p.split(':', 1)\<close> for a \<open>p\<close> that contains a colon.\<close>

definition split_colon :: "string \<Rightarrow> string \<times> string" where
  "split_colon p = (takeWhile (\<lambda>c. c \<noteq> CHR '':'') p, drop 1 (dropWhile (\<lambda>c. c \<noteq> CHR '':'') p))"

section \<open>Normalizer\<close>

text \<open>\<^verbatim>\<open>allowed = set(string.ascii_lowercase + string.digits + ' ')\<close>\<close>

definition allowed :: string where
  "allowed = ascii_lowercase @ digits @ '' ''"

definition expand_contractions :: "string \<Rightarrow> string" where
  "expand_contractions s =
     replace ''i'm'' ''i am'' (replace ''it's'' ''it is'' (replace ''what's'' ''what is'' s))"

definition normalize_text :: "string \<Rightarrow> string" where
  "normalize_text s =
     (if s = [] then []
      else join '' '' (split_ws (filter (\<lambda>ch. ch \<in> set allowed)
                                   (expand_contractions (strip (lower s))))))"




section \<open>Corpus rows and the matcher\<close>

text \<open>
  A corpus row is the dictionary that \<^verbatim>\<open>csv.DictReader\<close> or
  \<^verbatim>\<open>append_to_dataset_row\<close> produces. Only the four keys below are ever read. A field is
  \<open>None\<close> when the key is absent (\<^verbatim>\<open>row.get\<close> gives \<^verbatim>\<open>None\<close>); a present value is a
  string, since \<^verbatim>\<open>load_dataset\<close> turns every value into one.
\<close>

record row =
  row_text :: "string option"
  row_intent :: "string option"
  row_response :: "string option"
  row_entities :: "string option"

text \<open>\<^verbatim>\<open>row.get(k) or ''\<close>, and also \<^verbatim>\<open>row.get(k, '')\<close>.\<close>

definition or_empty :: "string option \<Rightarrow> string" where
  "or_empty v = (case v of None \<Rightarrow> [] | Some s \<Rightarrow> s)"

text \<open>The dictionary \<^verbatim>\<open>{'intent': .., 'response': .., 'entities': ..}\<close> that
  \<^verbatim>\<open>find_intent_response\<close> returns.\<close>

record match_result =
  intent :: string
  response :: string
  entities :: string

definition match_of :: "row \<Rightarrow> match_result" where
  "match_of r = \<lparr>intent = or_empty (row_intent r),
                 response = or_empty (row_response r),
                 entities = or_empty (row_entities r)\<rparr>"

text \<open>\<^verbatim>\<open>row_norm\<close> of the first and the third loop.\<close>

definition row_norm :: "row \<Rightarrow> string" where
  "row_norm r = normalize_text (lower (strip (or_empty (row_text r))))"

text \<open>Loop 1: exact normalized match.\<close>

fun stage1 :: "string \<Rightarrow> row list \<Rightarrow> match_result option" where
  "stage1 message_norm [] = None"
| "stage1 message_norm (r # rs) =
     (if row_norm r \<noteq> [] \<and> row_norm r = message_norm then Some (match_of r)
      else stage1 message_norm rs)"

text \<open>Loop 2. \<^verbatim>\<open>parts\<close> are the segments of the annotation that contain a colon; the
  inner loop returns the row at the first segment that passes the test of
  \<open>part_matches\<close>, so the row is returned when some segment passes.\<close>

definition entity_parts :: "string \<Rightarrow> string list" where
  "entity_parts ents = filter (\<lambda>p. CHR '':'' \<in> set p) (split_on CHR ''|'' ents)"

definition part_matches :: "string \<Rightarrow> string list \<Rightarrow> string \<Rightarrow> string \<Rightarrow> bool" where
  "part_matches user_message message_digits digits_concat p =
     (let val = strip (snd (split_colon p))
      in val \<noteq> [] \<and> list_ex is_digit val \<and>
         (sublist val user_message \<or> sublist val digits_concat \<or>
          list_ex (\<lambda>d. val = d) message_digits))"

fun stage2 :: "string \<Rightarrow> string list \<Rightarrow> string \<Rightarrow> row list \<Rightarrow> match_result option" where
  "stage2 user_message message_digits digits_concat [] = None"
| "stage2 user_message message_digits digits_concat (r # rs) =
     (let ents = strip (or_empty (row_entities r))
      in if (sublist ''ACCOUNT_NUMBER'' ents \<or> sublist ''MONEY'' ents) \<and>
            list_ex (part_matches user_message message_digits digits_concat) (entity_parts ents)
         then Some (match_of r)
         else stage2 user_message message_digits digits_concat rs)"

text \<open>Loop 3. \<^verbatim>\<open>len(msg_tokens & row_tokens)\<close> on the two token sets.\<close>

definition overlap :: "string list \<Rightarrow> string list \<Rightarrow> nat" where
  "overlap msg_tokens row_tokens = card (set msg_tokens \<inter> set row_tokens)"

fun stage3_loop :: "string list \<Rightarrow> row list \<Rightarrow> row option \<times> nat \<Rightarrow> row option \<times> nat" where
  "stage3_loop msg_tokens [] best = best"
| "stage3_loop msg_tokens (r # rs) (best_row, best_score) =
     (if row_norm r = [] then stage3_loop msg_tokens rs (best_row, best_score)
      else if overlap msg_tokens (split_ws (row_norm r)) > best_score
           then stage3_loop msg_tokens rs (Some r, overlap msg_tokens (split_ws (row_norm r)))
           else stage3_loop msg_tokens rs (best_row, best_score))"

text \<open>The test after the loop. A row that became \<^verbatim>\<open>best_row\<close> has a text, so as a
  dictionary it is not empty and \<^verbatim>\<open>if best_row\<close> holds for it.\<close>

definition stage3 :: "string \<Rightarrow> row list \<Rightarrow> match_result option" where
  "stage3 message_norm ds =
     (case stage3_loop (split_ws message_norm) ds (None, 0) of
        (None, best_score) \<Rightarrow> None
      | (Some best_row, best_score) \<Rightarrow>
          if best_score \<ge> 1 then Some (match_of best_row) else None)"

definition find_intent_response :: "row list \<Rightarrow> string \<Rightarrow> match_result option" where
  "find_intent_response ds user_message =
     (if user_message = [] then None
      else let message_norm = normalize_text user_message in
        case stage1 message_norm ds of
          Some m \<Rightarrow> Some m
        | None \<Rightarrow>
            (let message_digits = runs is_digit user_message;
                 digits_concat = concat message_digits
             in case stage2 user_message message_digits digits_concat ds of
                  Some m \<Rightarrow> Some m
                | None \<Rightarrow> stage3 message_norm ds))"


section \<open>The matching rules as the specification words them\<close>

text \<open>Stage 1: the row's normalized text is non-empty and equals the normalized utterance.\<close>

definition exact_match :: "string \<Rightarrow> row \<Rightarrow> bool" where
  "exact_match utterance r =
     (normalize_text (or_empty (row_text r)) \<noteq> [] \<and>
      normalize_text (or_empty (row_text r)) = normalize_text utterance)"

text \<open>Stage 2, the test on a value as the specification has it: non-empty, with a digit, and
  a substring of the raw utterance, or equal to the concatenation of all digit runs, or
  equal to one digit run.\<close>

definition value_matches_spec :: "string \<Rightarrow> string \<Rightarrow> bool" where
  "value_matches_spec utterance v =
     (v \<noteq> [] \<and> list_ex is_digit v \<and>
      (sublist v utterance \<or> v = concat (runs is_digit utterance) \<or>
       v \<in> set (runs is_digit utterance)))"

text \<open>The same test with the second alternative as the code has it: a substring of the
  concatenation of all digit runs.\<close>

definition value_matches :: "string \<Rightarrow> string \<Rightarrow> bool" where
  "value_matches utterance v =
     (v \<noteq> [] \<and> list_ex is_digit v \<and>
      (sublist v utterance \<or> sublist v (concat (runs is_digit utterance)) \<or>
       v \<in> set (runs is_digit utterance)))"

text \<open>Stage 2, the test on a row, for a given test on values: the entities field contains
  \<^verbatim>\<open>ACCOUNT_NUMBER\<close> or \<^verbatim>\<open>MONEY\<close>, and some segment between the bars has a colon and a
  trimmed value after its first colon that passes.\<close>

definition numeric_match :: "(string \<Rightarrow> string \<Rightarrow> bool) \<Rightarrow> string \<Rightarrow> row \<Rightarrow> bool" where
  "numeric_match ok utterance r =
     ((sublist ''ACCOUNT_NUMBER'' (or_empty (row_entities r)) \<or>
       sublist ''MONEY'' (or_empty (row_entities r))) \<and>
      list_ex (\<lambda>p. CHR '':'' \<in> set p \<and> ok utterance (strip (snd (split_colon p))))
        (split_on CHR ''|'' (or_empty (row_entities r))))"

text \<open>Stage 3: the number of tokens that the normalized utterance and the normalized text
  of the row share.\<close>

definition token_overlap :: "string \<Rightarrow> row \<Rightarrow> nat" where
  "token_overlap utterance r =
     card (set (split_ws (normalize_text utterance)) \<inter>
           set (split_ws (normalize_text (or_empty (row_text r)))))"

section \<open>Entity extractor\<close>

text \<open>The dictionary that \<^verbatim>\<open>extract_entities\<close> builds: a key is \<open>None\<close> until it is
  set.\<close>

record extracted =
  account_number :: "string option"
  amount :: "string option"
  person :: "string option"

definition no_entities :: extracted where
  "no_entities = \<lparr>account_number = None, amount = None, person = None\<rparr>"

text \<open>The first loop of \<^verbatim>\<open>extract_entities\<close>, over \<^verbatim>\<open>entities_str.split('|')\<close>.\<close>

fun annotation_loop :: "string list \<Rightarrow> extracted \<Rightarrow> extracted" where
  "annotation_loop [] e = e"
| "annotation_loop (ent # ents) e =
     (if CHR '':'' \<in> set ent then
        (let key = upper (strip (fst (split_colon ent)));
             val = strip (snd (split_colon ent))
         in if key = ''ACCOUNT_NUMBER'' \<and> val \<noteq> []
              then annotation_loop ents (e\<lparr>account_number := Some val\<rparr>)
            else if key = ''MONEY'' \<and> val \<noteq> []
              then annotation_loop ents (e\<lparr>amount := Some val\<rparr>)
            else if key = ''PERSON'' \<and> val \<noteq> []
              then annotation_loop ents (e\<lparr>person := Some val\<rparr>)
            else annotation_loop ents e)
      else annotation_loop ents e)"

text \<open>
  The three fallback searches have the form \<^verbatim>\<open>re.search(r'\b(X)\b', text)\<close> with \<open>X\<close>
  one of \<^verbatim>\<open>\d{6,}\<close>, \<^verbatim>\<open>\d+\<close> and \<^verbatim>\<open>[A-Za-z]{2,}\<close>. Every character that \<open>X\<close>
  accepts is a word character, so a match starts where a word starts and, the repetition
  being bounded only from below, ends where that word ends: the match is the first
  maximal run of word characters that as a whole has the form \<open>X\<close>.
\<close>

definition search_word :: "(string \<Rightarrow> bool) \<Rightarrow> string \<Rightarrow> string option" where
  "search_word form s = find form (runs is_word s)"

definition digits6 :: "string \<Rightarrow> bool" where
  "digits6 w = (list_all is_digit w \<and> 6 \<le> length w)"

definition digits1 :: "string \<Rightarrow> bool" where
  "digits1 w = (list_all is_digit w \<and> 1 \<le> length w)"

definition letters2 :: "string \<Rightarrow> bool" where
  "letters2 w = (list_all is_alpha w \<and> 2 \<le> length w)"

definition extract_entities :: "string \<Rightarrow> string \<Rightarrow> extracted" where
  "extract_entities user_text entities_str =
     (if entities_str = [] then no_entities
      else
        let e0 = annotation_loop (split_on CHR ''|'' entities_str) no_entities;
            e1 = (if account_number e0 = None
                  then (case search_word digits6 user_text of
                          Some m \<Rightarrow> e0\<lparr>account_number := Some m\<rparr> | None \<Rightarrow> e0)
                  else e0);
            e2 = (if amount e1 = None
                  then (case search_word digits1 user_text of
                          Some m \<Rightarrow> e1\<lparr>amount := Some m\<rparr> | None \<Rightarrow> e1)
                  else e1)
        in (if person e2 = None
            then (case search_word letters2 user_text of
                    Some m \<Rightarrow> e2\<lparr>person := Some m\<rparr> | None \<Rightarrow> e2)
            else e2))"

section \<open>Reply synthesis\<close>

text \<open>The money-bag sign in UTF-8, and the template \<^verbatim>\<open>f"<sign> Your balance is {v}."\<close>.\<close>

definition money_bag :: string where
  "money_bag = [CHR 0xF0, CHR 0x9F, CHR 0x92, CHR 0xB0]"

definition balance_reply :: "string \<Rightarrow> string" where
  "balance_reply v = money_bag @ '' Your balance is '' @ v @ ''.''"

text \<open>\<^verbatim>\<open>re.search(r'MONEY:(\d+)', ents)\<close>: the digits after the leftmost \<^verbatim>\<open>MONEY:\<close> that
  a digit follows.\<close>

fun money_search :: "string \<Rightarrow> string option" where
  "money_search [] = None"
| "money_search (c # cs) =
     (if prefix ''MONEY:'' (c # cs) \<and> takeWhile is_digit (drop 6 (c # cs)) \<noteq> []
      then Some (takeWhile is_digit (drop 6 (c # cs)))
      else money_search cs)"

text \<open>The loop over the dataset that pairs an account number with a \<^verbatim>\<open>MONEY\<close> value;
  it stops at the first row where the search succeeds.\<close>

fun paired_money :: "string \<Rightarrow> row list \<Rightarrow> string option" where
  "paired_money acct [] = None"
| "paired_money acct (r # rs) =
     (if sublist (''ACCOUNT_NUMBER:'' @ acct) (or_empty (row_entities r)) \<and>
         sublist ''MONEY:'' (or_empty (row_entities r))
      then (case money_search (or_empty (row_entities r)) of
              Some v \<Rightarrow> Some v
            | None \<Rightarrow> paired_money acct rs)
      else paired_money acct rs)"

text \<open>Lines 375 to 404 of \<^verbatim>\<open>chat\<close>: the reply and the entities after them.\<close>

definition build_reply ::
  "row list \<Rightarrow> match_result \<Rightarrow> extracted \<Rightarrow> string \<Rightarrow> string \<times> extracted" where
  "build_reply ds result ents user_message =
     (let bot_reply = strip (response result);
          (bot_reply, ents) =
            (if bot_reply = [] then
               (if or_empty (amount ents) \<noteq> []
                then (balance_reply (or_empty (amount ents)), ents)
                else if or_empty (account_number ents) \<noteq> []
                then (case paired_money (or_empty (account_number ents)) ds of
                        Some v \<Rightarrow> (balance_reply v, ents\<lparr>amount := Some v\<rparr>)
                      | None \<Rightarrow> (bot_reply, ents))
                else (bot_reply, ents))
             else (bot_reply, ents))
      in if bot_reply = []
         then (case runs is_digit user_message of
                 [] \<Rightarrow> (bot_reply, ents)
               | d # rest \<Rightarrow> (balance_reply d, ents))
         else (bot_reply, ents))"

section \<open>Corpus store, user facts and the chat turn\<close>

record conversation =
  conv_user :: string
  conv_bot :: string
  conv_intent :: string

text \<open>
  The record of one user in \<^verbatim>\<open>user_data\<close>. \<^verbatim>\<open>chat\<close> creates it with an account number,
  a balance and an empty history, and later adds the other keys. The balance is a number
  that the chat turn never computes with, so its type is left open.
\<close>

record 'b user_facts =
  uf_account_number :: string
  uf_balance :: 'b
  uf_conversations :: "conversation list"
  uf_amount :: "string option"
  uf_person :: "string option"
  uf_last_amount :: "string option"
  uf_last_recipient :: "string option"

text \<open>The row of the \<^verbatim>\<open>User\<close> table that \<^verbatim>\<open>chat\<close> reads for a new user.\<close>

record 'b db_user =
  db_account_number :: string
  db_balance :: 'b

text \<open>
  The state: the in-memory \<^verbatim>\<open>dataset\<close>, the CSV file as the list of its records
  (empty when the file is missing or empty), the in-memory \<^verbatim>\<open>user_data\<close> and the copy
  that \<^verbatim>\<open>save_user_data\<close> wrote last.
\<close>

record 'b bot_state =
  dataset :: "row list"
  csv_file :: "string list list"
  user_data :: "string \<rightharpoonup> 'b user_facts"
  user_data_file :: "string \<rightharpoonup> 'b user_facts"

text \<open>
  What the file system does to one call of \<^verbatim>\<open>append_to_dataset_row\<close>: nothing fails;
  \<^verbatim>\<open>os.makedirs\<close> (or the size test) raises, before the duplicate check; \<^verbatim>\<open>open\<close>
  raises; or writing raises after the given number of records reached the file.
\<close>

datatype io_outcome = Io_ok | Makedirs_raises | Open_raises | Write_raises nat

datatype exn = OSError

definition csv_header :: "string list" where
  "csv_header = [''text'', ''intent'', ''response'', ''entities'']"

definition new_row :: "string \<Rightarrow> string \<Rightarrow> string \<Rightarrow> string \<Rightarrow> row" where
  "new_row t i r e = \<lparr>row_text = Some t, row_intent = Some i, row_response = Some r,
                      row_entities = Some e\<rparr>"

definition is_duplicate :: "string \<Rightarrow> string \<Rightarrow> string \<Rightarrow> row \<Rightarrow> bool" where
  "is_duplicate t i e r = (row_text r = Some t \<and> row_intent r = Some i \<and> row_entities r = Some e)"

definition append_to_dataset_row ::
  "io_outcome \<Rightarrow> 'b bot_state \<Rightarrow> string \<Rightarrow> string \<Rightarrow> string \<Rightarrow> string
   \<Rightarrow> (exn + bool) \<times> 'b bot_state" where
  "append_to_dataset_row io st t i r entities_str =
     (if io = Makedirs_raises then (Inl OSError, st)
      else
        let file_exists = (csv_file st \<noteq> []);
            written = (if file_exists then [] else [csv_header]) @ [[t, i, r, entities_str]]
        in if list_ex (is_duplicate t i entities_str) (dataset st) then (Inr False, st)
           else (case io of
                   Open_raises \<Rightarrow> (Inl OSError, st)
                 | Write_raises n \<Rightarrow>
                     (Inl OSError, st\<lparr>csv_file := csv_file st @ take n written\<rparr>)
                 | _ \<Rightarrow>
                     (Inr True, st\<lparr>dataset := dataset st @ [new_row t i r entities_str],
                                    csv_file := csv_file st @ written\<rparr>)))"

definition intent_colors :: "(string \<times> string) list" where
  "intent_colors =
     [(''greet'', ''#4CAF50''), (''goodbye'', ''#FF9800''), (''check_balance'', ''#2196F3''),
      (''transaction_inquiry'', ''#9C27B0''), (''loan_inquiry'', ''#F44336''),
      (''card_inquiry'', ''#00BCD4''), (''block_card'', ''#E91E63''),
      (''branch_locator'', ''#795548''), (''transfer_money'', ''#FF5722''),
      (''thanks'', ''#8BC34A''), (''out_of_scope'', ''#757575'')]"

definition get_intent_color :: "string \<Rightarrow> string" where
  "get_intent_color i = (case map_of intent_colors i of Some c \<Rightarrow> c | None \<Rightarrow> ''#757575'')"

text \<open>The dictionary that \<^verbatim>\<open>chat\<close> returns.\<close>

record chat_response =
  reply :: string
  reply_intent :: string
  intent_color :: string

definition fallback_reply :: string where
  "fallback_reply =
     ''I can only assist with banking questions. Try asking about balance, transfers, loans, or cards.''"

text \<open>Lines 407 to 414: \<^verbatim>\<open>update(entities)\<close> and the three assignments after it, done
  only when the dictionary of entities is not empty.\<close>

definition update_facts :: "extracted \<Rightarrow> 'b user_facts \<Rightarrow> 'b user_facts" where
  "update_facts ents f =
     (if account_number ents = None \<and> amount ents = None \<and> person ents = None then f
      else
        let f1 = (case account_number ents of None \<Rightarrow> f | Some v \<Rightarrow> f\<lparr>uf_account_number := v\<rparr>);
            f2 = (case amount ents of None \<Rightarrow> f1 | Some v \<Rightarrow> f1\<lparr>uf_amount := Some v\<rparr>);
            f3 = (case person ents of None \<Rightarrow> f2 | Some v \<Rightarrow> f2\<lparr>uf_person := Some v\<rparr>);
            f4 = (case amount ents of None \<Rightarrow> f3 | Some v \<Rightarrow> f3\<lparr>uf_last_amount := Some v\<rparr>);
            f5 = (case person ents of None \<Rightarrow> f4 | Some v \<Rightarrow> f4\<lparr>uf_last_recipient := Some v\<rparr>)
        in (case account_number ents of None \<Rightarrow> f5 | Some v \<Rightarrow> f5\<lparr>uf_account_number := v\<rparr>))"

text \<open>Lines 426 to 436: the annotation under which the turn is stored.\<close>

definition turn_entities_str :: "extracted \<Rightarrow> string \<Rightarrow> string" where
  "turn_entities_str ents bot_reply =
     (let add_entities =
            (case amount ents of None \<Rightarrow> [] | Some v \<Rightarrow> [''MONEY:'' @ v]) @
            (case account_number ents of None \<Rightarrow> [] | Some v \<Rightarrow> [''ACCOUNT_NUMBER:'' @ v]);
          entities_str = join ''|'' add_entities
      in if entities_str = []
         then (case runs is_digit bot_reply of
                 [] \<Rightarrow> entities_str
               | d # rest \<Rightarrow> ''MONEY:'' @ d)
         else entities_str)"

definition new_facts :: "'b db_user \<Rightarrow> 'b user_facts" where
  "new_facts user = \<lparr>uf_account_number = db_account_number user, uf_balance = db_balance user,
                     uf_conversations = [], uf_amount = None, uf_person = None,
                     uf_last_amount = None, uf_last_recipient = None\<rparr>"

definition add_conversation :: "string \<Rightarrow> string \<Rightarrow> string \<Rightarrow> 'b user_facts \<Rightarrow> 'b user_facts" where
  "add_conversation u b i f =
     f\<lparr>uf_conversations := uf_conversations f @ [\<lparr>conv_user = u, conv_bot = b, conv_intent = i\<rparr>]\<rparr>"

text \<open>\<^verbatim>\<open>save_user_data(user_data)\<close>: the whole mapping is written out.\<close>

definition save_user_data :: "'b bot_state \<Rightarrow> 'b bot_state" where
  "save_user_data st = st\<lparr>user_data_file := user_data st\<rparr>"

text \<open>
  One turn of \<^verbatim>\<open>chat\<close> for a logged-in user: \<open>user\<close> is the row of the user in the
  database, \<open>user_id_str\<close> the key of the user in \<^verbatim>\<open>user_data\<close>, \<open>message\<close> the string
  under \<^verbatim>\<open>message\<close> in the request (empty when the key is missing). An exception of
  \<^verbatim>\<open>append_to_dataset_row\<close> is caught and dropped by the \<^verbatim>\<open>try\<close> around the call;
  the state that the call left behind stays. The session, the database and the file of
  the user facts are the collaborators of the chat core: the turn is modelled for a
  logged-in user whose row exists, and the write of \<^verbatim>\<open>save_user_data\<close> is taken to
  succeed.
\<close>

definition chat ::
  "io_outcome \<Rightarrow> 'b db_user \<Rightarrow> string \<Rightarrow> string \<Rightarrow> 'b bot_state \<Rightarrow> chat_response \<times> 'b bot_state" where
  "chat io user user_id_str message st =
     (let user_message = strip message;
          facts = (case user_data st user_id_str of None \<Rightarrow> new_facts user | Some f \<Rightarrow> f)
      in case find_intent_response (dataset st) user_message of
           Some result \<Rightarrow>
             (let intent = intent result;
                  (bot_reply, ents) =
                     build_reply (dataset st) result
                       (extract_entities user_message (entities result)) user_message;
                  facts = add_conversation user_message bot_reply intent (update_facts ents facts);
                  st = save_user_data (st\<lparr>user_data := (user_data st)(user_id_str \<mapsto> facts)\<rparr>);
                  entities_str = turn_entities_str ents bot_reply;
                  st = (if entities_str \<noteq> []
                        then snd (append_to_dataset_row io st user_message intent bot_reply entities_str)
                        else st)
              in (\<lparr>reply = bot_reply, reply_intent = intent,
                   intent_color = get_intent_color intent\<rparr>, st))
         | None \<Rightarrow>
             (let bot_reply = fallback_reply;
                  intent = ''out_of_scope'';
                  facts = add_conversation user_message bot_reply intent facts;
                  st = save_user_data (st\<lparr>user_data := (user_data st)(user_id_str \<mapsto> facts)\<rparr>)
              in (\<lparr>reply = bot_reply, reply_intent = intent,
                   intent_color = get_intent_color intent\<rparr>, st)))"

section \<open>Loading the corpus\<close>

text \<open>
  A field of a row as \<^verbatim>\<open>csv.DictReader\<close> yields it: the file has no such column, the
  line is too short to have a value for it (\<^verbatim>\<open>None\<close>), or a string. \<^verbatim>\<open>load_dataset\<close>
  strips a string and turns \<^verbatim>\<open>None\<close> into the string \<^verbatim>\<open>None\<close>.
\<close>

datatype raw_field = No_column | No_value | Value string

record raw_row =
  raw_text :: raw_field
  raw_intent :: raw_field
  raw_response :: raw_field
  raw_entities :: raw_field

definition load_field :: "raw_field \<Rightarrow> string option" where
  "load_field f = (case f of No_column \<Rightarrow> None
                           | No_value \<Rightarrow> Some (strip ''None'')
                           | Value v \<Rightarrow> Some (strip v))"

definition load_dataset :: "raw_row list \<Rightarrow> row list" where
  "load_dataset rows =
     map (\<lambda>r. \<lparr>row_text = load_field (raw_text r), row_intent = load_field (raw_intent r),
                row_response = load_field (raw_response r),
                row_entities = load_field (raw_entities r)\<rparr>) rows"

text \<open>The responses of a corpus carry no surrounding white space.\<close>

definition responses_trimmed :: "row list \<Rightarrow> bool" where
  "responses_trimmed ds = list_all (\<lambda>r. strip (or_empty (row_response r)) = or_empty (row_response r)) ds"

section \<open>Extraction, synthesis and storage as the specification words them\<close>

text \<open>The annotation as pairs of a trimmed, upper-cased key and a trimmed value, one pair
  for each segment with a colon.\<close>

definition annotation_pairs :: "string \<Rightarrow> (string \<times> string) list" where
  "annotation_pairs ann =
     map (\<lambda>p. (upper (strip (fst (split_colon p))), strip (snd (split_colon p))))
       (filter (\<lambda>p. CHR '':'' \<in> set p) (split_on CHR ''|'' ann))"

text \<open>The explicit value of a key: the last non-empty value that the annotation gives it.\<close>

definition explicit_value :: "string \<Rightarrow> string \<Rightarrow> string option" where
  "explicit_value k ann = map_of (rev (filter (\<lambda>kv. snd kv \<noteq> []) (annotation_pairs ann))) k"

text \<open>The fallback of the specification: the first run of at least \<open>n\<close> consecutive
  characters of a kind, wherever it stands.\<close>

definition first_run :: "(char \<Rightarrow> bool) \<Rightarrow> nat \<Rightarrow> string \<Rightarrow> string option" where
  "first_run kind n s = find (\<lambda>w. n \<le> length w) (runs kind s)"

text \<open>The extractor as the specification words it: the explicit values first, then for
  each key still unset the first long enough run of digits or letters of the utterance.\<close>

definition extract_spec :: "string \<Rightarrow> string \<Rightarrow> extracted" where
  "extract_spec utterance ann =
     \<lparr>account_number = (case explicit_value ''ACCOUNT_NUMBER'' ann of
                           Some v \<Rightarrow> Some v | None \<Rightarrow> first_run is_digit 6 utterance),
      amount = (case explicit_value ''MONEY'' ann of
                  Some v \<Rightarrow> Some v | None \<Rightarrow> first_run is_digit 1 utterance),
      person = (case explicit_value ''PERSON'' ann of
                  Some v \<Rightarrow> Some v | None \<Rightarrow> first_run is_alpha 2 utterance)\<rparr>"




text \<open>The key under which the store deduplicates, and the number of stored examples
  with a given key.\<close>

definition key_of :: "row \<Rightarrow> string option \<times> string option \<times> string option" where
  "key_of r = (row_text r, row_intent r, row_entities r)"

definition stored :: "string \<Rightarrow> string \<Rightarrow> string \<Rightarrow> row list \<Rightarrow> nat" where
  "stored t i e ds = length (filter (\<lambda>r. key_of r = (Some t, Some i, Some e)) ds)"

section \<open>Properties of the text primitives\<close>

lemma allowed_not_upper: "c \<in> set allowed \<Longrightarrow> c \<notin> set ascii_uppercase"
  unfolding allowed_def ascii_lowercase_def ascii_uppercase_def digits_def
  by (simp only: set_simps set_append) force

lemma zip_upper_None: "c \<notin> set ascii_uppercase \<Longrightarrow> map_of (zip ascii_uppercase ascii_lowercase) c = None"
  by (simp add: map_of_eq_None_iff ascii_uppercase_def ascii_lowercase_def)

lemma lower_char_allowed: "c \<in> set allowed \<Longrightarrow> lower_char c = c"
  by (simp add: lower_char_def zip_upper_None allowed_not_upper)






lemma is_space_non_space: "is_space c \<longleftrightarrow> \<not> non_space c"
  by (simp add: is_space_def non_space_def)

lemma strip_id: "s \<noteq> [] \<Longrightarrow> non_space (hd s) \<Longrightarrow> non_space (last s) \<Longrightarrow> strip s = s"
proof -
  assume a: "s \<noteq> []" "non_space (hd s)" "non_space (last s)"
  from a(1,2) have 1: "dropWhile is_space s = s"
    by (cases s) (auto simp: is_space_non_space)
  from a(1,3) have "\<not> is_space (hd (rev s))"
    by (simp add: hd_rev is_space_non_space)
  with a(1) have 2: "dropWhile is_space (rev s) = rev s"
    by (cases "rev s") auto
  show ?thesis by (simp add: strip_def 1 2)
qed

















section \<open>The matcher\<close>

lemma lower_char_cases:
  "lower_char c = c \<or> (c \<in> set ascii_uppercase \<and> lower_char c \<in> set ascii_lowercase)"
proof (cases "map_of (zip ascii_uppercase ascii_lowercase) c")
  case None
  then show ?thesis by (simp add: lower_char_def)
next
  case (Some d)
  then have "(c, d) \<in> set (zip ascii_uppercase ascii_lowercase)" by (rule map_of_SomeD)
  then have "c \<in> set ascii_uppercase" "d \<in> set ascii_lowercase"
    by (auto dest: set_zip_leftD set_zip_rightD)
  with Some show ?thesis by (simp add: lower_char_def)
qed

lemma lowercase_allowed: "c \<in> set ascii_lowercase \<Longrightarrow> c \<in> set allowed"
  by (simp add: allowed_def)

lemma lower_char_idem: "lower_char (lower_char c) = lower_char c"
  using lower_char_cases [of c] by (auto simp: lower_char_allowed lowercase_allowed)

lemma letters_not_space:
  "c \<in> set ascii_uppercase \<Longrightarrow> \<not> is_space c" "c \<in> set ascii_lowercase \<Longrightarrow> \<not> is_space c"
  unfolding is_space_def whitespace_def ascii_uppercase_def ascii_lowercase_def
  by (simp only: set_simps; force)+

lemma is_space_lower_char: "is_space (lower_char c) = is_space c"
  using lower_char_cases [of c] by (auto simp: letters_not_space)

lemma lower_idem: "lower (lower s) = lower s"
  by (simp add: lower_def lower_char_idem)

lemma dropWhile_space_lower: "dropWhile is_space (lower s) = lower (dropWhile is_space s)"
  by (induction s) (auto simp: lower_def is_space_lower_char)

lemma strip_lower: "strip (lower s) = lower (strip s)"
proof -
  have "rev (lower s) = lower (rev s)" for s by (simp add: lower_def rev_map)
  then show ?thesis
    by (simp add: strip_def dropWhile_space_lower)
qed

lemma strip_shape: "strip s = [] \<or> (\<not> is_space (hd (strip s)) \<and> \<not> is_space (last (strip s)))"
proof (cases "dropWhile is_space s")
  case Nil
  show ?thesis unfolding strip_def Nil by simp
next
  case (Cons c t)
  then have c: "\<not> is_space c" using hd_dropWhile [of is_space s] by auto
  then have d: "dropWhile is_space (rev t @ [c]) = dropWhile is_space (rev t) @ [c]"
    by (simp add: dropWhile_append3)
  have s: "strip s = c # rev (dropWhile is_space (rev t))"
    by (simp add: strip_def Cons d)
  have "dropWhile is_space (rev t @ [c]) \<noteq> []" by (simp add: d)
  then have "\<not> is_space (hd (dropWhile is_space (rev t @ [c])))" by (rule hd_dropWhile)
  moreover have "last (strip s) = hd (dropWhile is_space (rev t @ [c]))"
    by (simp add: strip_def Cons last_rev)
  ultimately show ?thesis using c s by simp
qed

lemma strip_Nil [simp]: "strip [] = []"
  by (simp add: strip_def)

lemma strip_idem: "strip (strip s) = strip s"
proof (cases "strip s = []")
  case True
  then show ?thesis by simp
next
  case False
  with strip_shape [of s] show ?thesis by (simp add: strip_id is_space_non_space)
qed

lemma lower_Nil_iff [simp]: "lower s = [] \<longleftrightarrow> s = []"
  by (simp add: lower_def)

lemma normalize_text_lower_strip: "normalize_text (lower (strip s)) = normalize_text s"
proof (cases "strip s = []")
  case True
  then have "strip (lower s) = []" by (simp add: strip_lower)
  with True show ?thesis
    by (simp add: normalize_text_def expand_contractions_def split_ws_def)
next
  case False
  then have "s \<noteq> []" by auto
  moreover have "strip (lower (lower (strip s))) = strip (lower s)"
    by (simp add: lower_idem strip_lower strip_idem)
  ultimately show ?thesis using False by (simp add: normalize_text_def)
qed

lemma row_norm_eq: "row_norm r = normalize_text (or_empty (row_text r))"
  by (simp add: row_norm_def normalize_text_lower_strip)

lemma stage1_first:
  assumes "row_norm r \<noteq> []" "row_norm r = mn"
    and "\<forall>x \<in> set pre. \<not> (row_norm x \<noteq> [] \<and> row_norm x = mn)"
  shows "stage1 mn (pre @ r # post) = Some (match_of r)"
  using assms by (induction pre) auto

lemma stage1_None: "stage1 mn ds = None \<longleftrightarrow> (\<forall>x \<in> set ds. \<not> (row_norm x \<noteq> [] \<and> row_norm x = mn))"
  by (induction ds) auto


subsection \<open>Trimming the entities field does not change the second stage\<close>

lemma strip_decomp:
  "\<exists>a b. s = a @ strip s @ b \<and> (\<forall>c \<in> set a. is_space c) \<and> (\<forall>c \<in> set b. is_space c)"
proof -
  let ?t = "dropWhile is_space s"
  let ?a = "takeWhile is_space s"
  let ?b = "rev (takeWhile is_space (rev ?t))"
  have "strip s @ ?b = rev (takeWhile is_space (rev ?t) @ dropWhile is_space (rev ?t))"
    unfolding strip_def by (simp only: rev_append)
  also have "\<dots> = ?t" by (simp only: takeWhile_dropWhile_id rev_rev_ident)
  finally have "?t = strip s @ ?b" by simp
  then have "s = ?a @ strip s @ ?b" by (metis takeWhile_dropWhile_id)
  moreover have "\<forall>c \<in> set ?a. is_space c" by (auto dest: set_takeWhileD)
  moreover have "\<forall>c \<in> set ?b. is_space c" by (auto dest: set_takeWhileD)
  ultimately show ?thesis by blast
qed

lemma strip_append_space:
  assumes "\<forall>c \<in> set b. is_space c"
  shows "strip (y @ b) = strip y"
proof (cases "\<forall>c \<in> set y. is_space c")
  case True
  with assms have 1: "dropWhile is_space (y @ b) = []" and 2: "dropWhile is_space y = []"
    by auto
  show ?thesis unfolding strip_def 1 2 by simp
next
  case False
  then have "dropWhile is_space (y @ b) = dropWhile is_space y @ b"
    by (auto simp: dropWhile_append1)
  moreover from assms have "dropWhile is_space (rev b @ z) = dropWhile is_space z" for z
    by (intro dropWhile_append2) auto
  ultimately show ?thesis by (simp add: strip_def)
qed

lemma strip_prepend_space:
  assumes "\<forall>c \<in> set a. is_space c"
  shows "strip (a @ y) = strip y"
proof -
  from assms have "dropWhile is_space (a @ y) = dropWhile is_space y"
    by (intro dropWhile_append2) auto
  then show ?thesis by (simp add: strip_def)
qed

lemma sublist_space_prefix:
  assumes "needle \<noteq> []" "\<not> is_space (hd needle)" "\<forall>c \<in> set a. is_space c"
  shows "sublist needle (a @ t) = sublist needle t"
  using assms(3)
proof (induction a)
  case Nil
  then show ?case by simp
next
  case (Cons x a)
  from assms(1,2) Cons.prems have "\<not> prefix needle (x # a @ t)"
    by (cases needle) auto
  with Cons show ?case by (simp add: sublist_Cons_right)
qed

lemma sublist_space_suffix:
  assumes "needle \<noteq> []" "\<not> is_space (last needle)" "\<forall>c \<in> set b. is_space c"
  shows "sublist needle (t @ b) = sublist needle t"
proof -
  from assms have "sublist (rev needle) (rev b @ rev t) = sublist (rev needle) (rev t)"
    by (intro sublist_space_prefix) (auto simp: hd_rev)
  then show ?thesis by (metis rev_append sublist_rev)
qed

lemma sublist_strip:
  assumes "needle \<noteq> []" "\<not> is_space (hd needle)" "\<not> is_space (last needle)"
  shows "sublist needle (strip s) = sublist needle s"
proof -
  obtain a b where s: "s = a @ strip s @ b" and a: "\<forall>c \<in> set a. is_space c"
    and b: "\<forall>c \<in> set b. is_space c"
    using strip_decomp by blast
  have "sublist needle (a @ strip s @ b) = sublist needle (strip s @ b)"
    using assms(1,2) a by (rule sublist_space_prefix)
  also have "\<dots> = sublist needle (strip s)"
    using assms(1,3) b by (rule sublist_space_suffix)
  finally show ?thesis using s by simp
qed

lemma split_on_nonempty [simp]: "split_on c s \<noteq> []"
  by (induction s) (auto split: list.splits)

lemma split_on_no_sep: "c \<notin> set b \<Longrightarrow> split_on c b = [b]"
  by (induction b) auto

lemma split_on_prefix:
  "c \<notin> set a \<Longrightarrow> split_on c (a @ s) = (a @ hd (split_on c s)) # tl (split_on c s)"
proof (induction a)
  case Nil
  then show ?case by simp
next
  case (Cons x a)
  then show ?case by (cases "split_on c s") auto
qed

lemma split_on_suffix:
  "c \<notin> set b \<Longrightarrow> split_on c (s @ b) = butlast (split_on c s) @ [last (split_on c s) @ b]"
proof (induction s)
  case Nil
  then show ?case by (simp add: split_on_no_sep)
next
  case (Cons x s)
  then show ?case
    by (cases "split_on c s"; cases "butlast (split_on c s)") (auto split: list.splits)
qed

lemma space_not_sep:
  "is_space c \<Longrightarrow> c \<noteq> CHR ''|''" "is_space c \<Longrightarrow> c \<noteq> CHR '':''"
  by (auto simp: is_space_def whitespace_def)

lemma seg_prefix:
  assumes "\<forall>c \<in> set a. is_space c"
  shows "(CHR '':'' \<in> set (a @ p) \<and> ok (strip (snd (split_colon (a @ p))))) =
         (CHR '':'' \<in> set p \<and> ok (strip (snd (split_colon p))))"
proof -
  from assms have n: "\<forall>c \<in> set a. c \<noteq> CHR '':''" by (auto dest: space_not_sep)
  then have "CHR '':'' \<notin> set a" by auto
  moreover from n have "dropWhile (\<lambda>c. c \<noteq> CHR '':'') (a @ p) = dropWhile (\<lambda>c. c \<noteq> CHR '':'') p"
    by (intro dropWhile_append2) auto
  ultimately show ?thesis by (simp add: split_colon_def)
qed

lemma seg_suffix:
  assumes "\<forall>c \<in> set b. is_space c"
  shows "(CHR '':'' \<in> set (p @ b) \<and> ok (strip (snd (split_colon (p @ b))))) =
         (CHR '':'' \<in> set p \<and> ok (strip (snd (split_colon p))))"
proof (cases "CHR '':'' \<in> set p")
  case False
  moreover from assms have "CHR '':'' \<notin> set b" by (auto dest: space_not_sep)
  ultimately show ?thesis by simp
next
  case True
  then have d: "dropWhile (\<lambda>c. c \<noteq> CHR '':'') (p @ b) = dropWhile (\<lambda>c. c \<noteq> CHR '':'') p @ b"
    by (auto simp: dropWhile_append1)
  from True have "dropWhile (\<lambda>c. c \<noteq> CHR '':'') p \<noteq> []" by auto
  then have "drop 1 (dropWhile (\<lambda>c. c \<noteq> CHR '':'') p @ b) = drop 1 (dropWhile (\<lambda>c. c \<noteq> CHR '':'') p) @ b"
    by (cases "dropWhile (\<lambda>c. c \<noteq> CHR '':'') p") auto
  with d True assms show ?thesis by (simp add: split_colon_def strip_append_space)
qed

lemma list_ex_split_on_prefix:
  assumes "\<forall>c \<in> set a. is_space c"
  shows "list_ex (\<lambda>p. CHR '':'' \<in> set p \<and> ok (strip (snd (split_colon p)))) (split_on CHR ''|'' (a @ s)) =
         list_ex (\<lambda>p. CHR '':'' \<in> set p \<and> ok (strip (snd (split_colon p)))) (split_on CHR ''|'' s)"
proof -
  from assms have "CHR ''|'' \<notin> set a" by (auto dest: space_not_sep)
  then have e: "split_on CHR ''|'' (a @ s) = (a @ hd (split_on CHR ''|'' s)) # tl (split_on CHR ''|'' s)"
    by (rule split_on_prefix)
  obtain x xs where x: "split_on CHR ''|'' s = x # xs" by (cases "split_on CHR ''|'' s") auto
  show ?thesis unfolding e x using seg_prefix [OF assms, of x ok] by simp
qed

lemma list_ex_split_on_suffix:
  assumes "\<forall>c \<in> set b. is_space c"
  shows "list_ex (\<lambda>p. CHR '':'' \<in> set p \<and> ok (strip (snd (split_colon p)))) (split_on CHR ''|'' (s @ b)) =
         list_ex (\<lambda>p. CHR '':'' \<in> set p \<and> ok (strip (snd (split_colon p)))) (split_on CHR ''|'' s)"
proof -
  from assms have "CHR ''|'' \<notin> set b" by (auto dest: space_not_sep)
  then have e: "split_on CHR ''|'' (s @ b) = butlast (split_on CHR ''|'' s) @ [last (split_on CHR ''|'' s) @ b]"
    by (rule split_on_suffix)
  have "split_on CHR ''|'' s = butlast (split_on CHR ''|'' s) @ [last (split_on CHR ''|'' s)]"
    by simp
  then obtain xs x where x: "split_on CHR ''|'' s = xs @ [x]" by metis
  show ?thesis unfolding e x using seg_suffix [OF assms, of x ok] by simp
qed

lemma list_ex_split_on_strip:
  "list_ex (\<lambda>p. CHR '':'' \<in> set p \<and> ok (strip (snd (split_colon p)))) (split_on CHR ''|'' (strip s)) =
   list_ex (\<lambda>p. CHR '':'' \<in> set p \<and> ok (strip (snd (split_colon p)))) (split_on CHR ''|'' s)"
proof -
  obtain a b where s: "s = a @ strip s @ b" and a: "\<forall>c \<in> set a. is_space c"
    and b: "\<forall>c \<in> set b. is_space c"
    using strip_decomp by blast
  show ?thesis
    using list_ex_split_on_prefix [OF a, of ok "strip s @ b"]
      list_ex_split_on_suffix [OF b, of ok "strip s"] s by simp
qed


subsection \<open>The three loops\<close>

lemma part_matches_eq:
  "part_matches um (runs is_digit um) (concat (runs is_digit um)) p =
   value_matches um (strip (snd (split_colon p)))"
  by (simp add: part_matches_def value_matches_def list_ex_iff Let_def)

lemma stage2_cond:
  "((sublist ''ACCOUNT_NUMBER'' (strip (or_empty (row_entities r))) \<or>
     sublist ''MONEY'' (strip (or_empty (row_entities r)))) \<and>
    list_ex (part_matches um (runs is_digit um) (concat (runs is_digit um)))
      (entity_parts (strip (or_empty (row_entities r))))) =
   numeric_match value_matches um r"
proof -
  have a: "sublist ''ACCOUNT_NUMBER'' (strip s) = sublist ''ACCOUNT_NUMBER'' s" for s
    by (rule sublist_strip) (simp_all add: is_space_def whitespace_def)
  have m: "sublist ''MONEY'' (strip s) = sublist ''MONEY'' s" for s
    by (rule sublist_strip) (simp_all add: is_space_def whitespace_def)
  have "list_ex (part_matches um (runs is_digit um) (concat (runs is_digit um))) (entity_parts s) =
        list_ex (\<lambda>p. CHR '':'' \<in> set p \<and> value_matches um (strip (snd (split_colon p))))
          (split_on CHR ''|'' s)" for s
    by (auto simp: entity_parts_def list_ex_iff part_matches_eq)
  then show ?thesis
    by (simp add: a m numeric_match_def list_ex_split_on_strip [of "value_matches um"])
qed

lemma stage2_first:
  assumes "numeric_match value_matches um r"
    and "\<forall>x \<in> set pre. \<not> numeric_match value_matches um x"
  shows "stage2 um (runs is_digit um) (concat (runs is_digit um)) (pre @ r # post) =
         Some (match_of r)"
  using assms by (induction pre) (simp_all add: Let_def stage2_cond)

lemma stage2_None:
  "stage2 um (runs is_digit um) (concat (runs is_digit um)) ds = None \<longleftrightarrow>
   (\<forall>x \<in> set ds. \<not> numeric_match value_matches um x)"
  by (induction ds) (simp_all add: Let_def stage2_cond)

lemma value_matches_utterance: "value_matches [] v \<Longrightarrow> False"
  by (auto simp: value_matches_def)

lemma numeric_match_utterance: "numeric_match value_matches um r \<Longrightarrow> um \<noteq> []"
  by (auto simp: numeric_match_def list_ex_iff dest: value_matches_utterance)

lemma exact_match_row_norm:
  "exact_match um r \<longleftrightarrow> row_norm r \<noteq> [] \<and> row_norm r = normalize_text um"
  by (simp add: exact_match_def row_norm_eq)

lemma exact_match_utterance: "exact_match um r \<Longrightarrow> um \<noteq> []"
  by (auto simp: exact_match_def normalize_text_def)

lemma nth_split:
  assumes "i < length ds"
  shows "ds = take i ds @ ds ! i # drop (Suc i) ds"
    and "x \<in> set (take i ds) \<Longrightarrow> \<exists>j<i. x = ds ! j"
    and "x \<in> set (drop (Suc i) ds) \<Longrightarrow> \<exists>j<length ds. x = ds ! j"
proof -
  from assms show "ds = take i ds @ ds ! i # drop (Suc i) ds" by (simp add: id_take_nth_drop)
  show "x \<in> set (take i ds) \<Longrightarrow> \<exists>j<i. x = ds ! j"
    using assms by (auto simp: in_set_conv_nth)
  show "x \<in> set (drop (Suc i) ds) \<Longrightarrow> \<exists>j<length ds. x = ds ! j"
    by (metis in_set_conv_nth in_set_dropD)
qed

lemma find_intent_response_stage1:
  assumes "i < length ds" "exact_match um (ds ! i)" "\<forall>j<i. \<not> exact_match um (ds ! j)"
  shows "find_intent_response ds um = Some (match_of (ds ! i))"
proof -
  from assms(2) have ne: "um \<noteq> []" by (rule exact_match_utterance)
  have "\<forall>x \<in> set (take i ds). \<not> (row_norm x \<noteq> [] \<and> row_norm x = normalize_text um)"
    using nth_split(2) [OF assms(1)] assms(3) by (auto simp: exact_match_row_norm)
  moreover from assms(2) have "row_norm (ds ! i) \<noteq> []" "row_norm (ds ! i) = normalize_text um"
    unfolding exact_match_row_norm by blast+
  ultimately have "stage1 (normalize_text um) (take i ds @ ds ! i # drop (Suc i) ds) =
      Some (match_of (ds ! i))"
    by (intro stage1_first)
  with nth_split(1) [OF assms(1)] have "stage1 (normalize_text um) ds = Some (match_of (ds ! i))"
    by simp
  with ne show ?thesis by (simp add: find_intent_response_def)
qed

lemma find_intent_response_stage2:
  assumes "\<forall>r \<in> set ds. \<not> exact_match um r"
    and "i < length ds" "numeric_match value_matches um (ds ! i)"
    and "\<forall>j<i. \<not> numeric_match value_matches um (ds ! j)"
  shows "find_intent_response ds um = Some (match_of (ds ! i))"
proof -
  from assms(3) have ne: "um \<noteq> []" by (rule numeric_match_utterance)
  from assms(1) have s1: "stage1 (normalize_text um) ds = None"
    by (simp add: stage1_None exact_match_row_norm)
  have "\<forall>x \<in> set (take i ds). \<not> numeric_match value_matches um x"
    using nth_split(2) [OF assms(2)] assms(4) by auto
  with assms(3) have "stage2 um (runs is_digit um) (concat (runs is_digit um))
      (take i ds @ ds ! i # drop (Suc i) ds) = Some (match_of (ds ! i))"
    by (intro stage2_first)
  with nth_split(1) [OF assms(2)]
  have "stage2 um (runs is_digit um) (concat (runs is_digit um)) ds = Some (match_of (ds ! i))"
    by simp
  with ne s1 show ?thesis by (simp add: find_intent_response_def)
qed

lemma overlap_Nil [simp]: "overlap toks [] = 0"
  by (simp add: overlap_def)

lemma score_empty_norm: "row_norm r = [] \<Longrightarrow> overlap toks (split_ws (row_norm r)) = 0"
  by (simp add: split_ws_def)

lemma stage3_loop_keep:
  "\<forall>x \<in> set rs. overlap toks (split_ws (row_norm x)) \<le> s \<Longrightarrow>
   stage3_loop toks rs (b, s) = (b, s)"
  by (induction rs) auto

lemma stage3_loop_first_max:
  assumes "\<forall>x \<in> set post. overlap toks (split_ws (row_norm x)) \<le> overlap toks (split_ws (row_norm r))"
  shows "s < overlap toks (split_ws (row_norm r)) \<Longrightarrow>
         \<forall>x \<in> set pre. overlap toks (split_ws (row_norm x)) < overlap toks (split_ws (row_norm r)) \<Longrightarrow>
         stage3_loop toks (pre @ r # post) (b, s) = (Some r, overlap toks (split_ws (row_norm r)))"
proof (induction pre arbitrary: b s)
  case Nil
  then have "row_norm r \<noteq> []" using score_empty_norm [of r toks] by auto
  with Nil assms show ?case by (simp add: stage3_loop_keep)
next
  case (Cons x pre)
  then show ?case by simp
qed

lemma token_overlap_score:
  "token_overlap um r = overlap (split_ws (normalize_text um)) (split_ws (row_norm r))"
  by (simp add: token_overlap_def overlap_def row_norm_eq)

lemma find_intent_response_stage3:
  assumes "\<forall>r \<in> set ds. \<not> exact_match um r"
    and "\<forall>r \<in> set ds. \<not> numeric_match value_matches um r"
  shows "find_intent_response ds um = stage3 (normalize_text um) ds \<or>
         (um = [] \<and> find_intent_response ds um = None)"
proof -
  from assms(1) have s1: "stage1 (normalize_text um) ds = None"
    by (simp add: stage1_None exact_match_row_norm)
  from assms(2) have s2: "stage2 um (runs is_digit um) (concat (runs is_digit um)) ds = None"
    by (simp add: stage2_None)
  show ?thesis by (simp add: find_intent_response_def s1 s2)
qed

lemma stage3_absent:
  assumes "\<forall>r \<in> set ds. token_overlap um r = 0"
  shows "stage3 (normalize_text um) ds = None"
proof -
  from assms have "stage3_loop (split_ws (normalize_text um)) ds (None, 0) = (None, 0)"
    by (intro stage3_loop_keep) (simp add: token_overlap_score)
  then show ?thesis by (simp add: stage3_def)
qed

lemma stage3_best:
  assumes "i < length ds" "1 \<le> token_overlap um (ds ! i)"
    and "\<forall>j<length ds. token_overlap um (ds ! j) \<le> token_overlap um (ds ! i)"
    and "\<forall>j<i. token_overlap um (ds ! j) < token_overlap um (ds ! i)"
  shows "stage3 (normalize_text um) ds = Some (match_of (ds ! i))"
proof -
  let ?toks = "split_ws (normalize_text um)"
  let ?sc = "\<lambda>x. overlap ?toks (split_ws (row_norm x))"
  have post: "\<forall>x \<in> set (drop (Suc i) ds). ?sc x \<le> ?sc (ds ! i)"
    using nth_split(3) [OF assms(1)] assms(3) by (auto simp: token_overlap_score)
  have pre: "\<forall>x \<in> set (take i ds). ?sc x < ?sc (ds ! i)"
    using nth_split(2) [OF assms(1)] assms(4) by (auto simp: token_overlap_score)
  from assms(2) have pos: "0 < ?sc (ds ! i)" by (simp add: token_overlap_score)
  have "stage3_loop ?toks (take i ds @ ds ! i # drop (Suc i) ds) (None, 0) =
        (Some (ds ! i), ?sc (ds ! i))"
    using post pos pre by (rule stage3_loop_first_max)
  with nth_split(1) [OF assms(1)]
  have "stage3_loop ?toks ds (None, 0) = (Some (ds ! i), ?sc (ds ! i))" by simp
  with pos show ?thesis by (simp add: stage3_def)
qed

subsection \<open>The claims about the matcher\<close>

text \<open>
  C1. Stage 1, exact match. When some row has a non-empty normalized text equal to the
  normalized utterance, the matcher returns the first such row in stored order, with its
  intent, response and entities, whatever the later stages would find. The corpus with
  the row \<^verbatim>\<open>check balance / check_balance / Sure\<close> answers \<^verbatim>\<open>Check Balance!\<close> with
  the response \<^verbatim>\<open>Sure\<close>.
\<close>

theorem stage1_exact_match:
  assumes "i < length ds" "exact_match utterance (ds ! i)"
    and "\<forall>j<i. \<not> exact_match utterance (ds ! j)"
  shows "find_intent_response ds utterance = Some (match_of (ds ! i)) \<and>
         find_intent_response
           [\<lparr>row_text = Some ''check balance'', row_intent = Some ''check_balance'',
             row_response = Some ''Sure'', row_entities = None\<rparr>] ''Check Balance!'' =
         Some \<lparr>intent = ''check_balance'', response = ''Sure'', entities = []\<rparr>"
proof
  from assms show "find_intent_response ds utterance = Some (match_of (ds ! i))"
    by (rule find_intent_response_stage1)
  show "find_intent_response
           [\<lparr>row_text = Some ''check balance'', row_intent = Some ''check_balance'',
             row_response = Some ''Sure'', row_entities = None\<rparr>] ''Check Balance!'' =
         Some \<lparr>intent = ''check_balance'', response = ''Sure'', entities = []\<rparr>"
    by code_simp
qed

theorem stage1_exact_match_witness:
  "find_intent_response
     [\<lparr>row_text = Some ''Hello there'', row_intent = Some ''greet'',
       row_response = Some ''Hi'', row_entities = Some ''''\<rparr>,
      \<lparr>row_text = Some ''What's my balance?'', row_intent = Some ''check_balance'',
       row_response = Some ''Sure'', row_entities = Some ''MONEY''\<rparr>,
      \<lparr>row_text = Some ''what is my balance'', row_intent = Some ''other'',
       row_response = Some ''Later'', row_entities = Some ''''\<rparr>]
     ''WHAT IS MY BALANCE'' =
   Some \<lparr>intent = ''check_balance'', response = ''Sure'', entities = ''MONEY''\<rparr>"
proof -
  let ?ds = "[\<lparr>row_text = Some ''Hello there'', row_intent = Some ''greet'',
       row_response = Some ''Hi'', row_entities = Some ''''\<rparr>,
      \<lparr>row_text = Some ''What's my balance?'', row_intent = Some ''check_balance'',
       row_response = Some ''Sure'', row_entities = Some ''MONEY''\<rparr>,
      \<lparr>row_text = Some ''what is my balance'', row_intent = Some ''other'',
       row_response = Some ''Later'', row_entities = Some ''''\<rparr>]"
  have 1: "(1::nat) < length ?ds" by simp
  have 2: "exact_match ''WHAT IS MY BALANCE'' (?ds ! 1)"
    by code_simp
  have "\<not> exact_match ''WHAT IS MY BALANCE'' (?ds ! 0)"
    by code_simp
  then have 3: "\<forall>j<1::nat. \<not> exact_match ''WHAT IS MY BALANCE'' (?ds ! j)"
    by simp
  from stage1_exact_match [OF 1 2 3] show ?thesis
    by (simp add: match_of_def or_empty_def)
qed

text \<open>
  C2 as stated fails: the code accepts a value that is a substring of the concatenation of
  the digit runs, not only a value equal to it. For \<^verbatim>\<open>pay 12 and 34\<close> the digit runs are
  \<^verbatim>\<open>12\<close> and \<^verbatim>\<open>34\<close>, their concatenation is \<^verbatim>\<open>1234\<close>, and a row annotated
  \<^verbatim>\<open>MONEY:23\<close> is returned although \<^verbatim>\<open>23\<close> is neither in the utterance, nor the
  concatenation, nor a digit run; the row matches in no other stage either.
\<close>

theorem stage2_numeric_match_counterexample:
  "find_intent_response
     [\<lparr>row_text = Some ''show balance'', row_intent = Some ''check_balance'',
       row_response = Some ''Your balance is 23'', row_entities = Some ''MONEY:23''\<rparr>]
     ''pay 12 and 34'' =
   Some \<lparr>intent = ''check_balance'', response = ''Your balance is 23'', entities = ''MONEY:23''\<rparr> \<and>
   \<not> exact_match ''pay 12 and 34''
     \<lparr>row_text = Some ''show balance'', row_intent = Some ''check_balance'',
      row_response = Some ''Your balance is 23'', row_entities = Some ''MONEY:23''\<rparr> \<and>
   \<not> numeric_match value_matches_spec ''pay 12 and 34''
     \<lparr>row_text = Some ''show balance'', row_intent = Some ''check_balance'',
      row_response = Some ''Your balance is 23'', row_entities = Some ''MONEY:23''\<rparr> \<and>
   token_overlap ''pay 12 and 34''
     \<lparr>row_text = Some ''show balance'', row_intent = Some ''check_balance'',
      row_response = Some ''Your balance is 23'', row_entities = Some ''MONEY:23''\<rparr> = 0"
  by code_simp

text \<open>
  C2, amended. For an utterance with no stage-1 match, a row matches in stage 2 exactly
  when its entities field contains \<^verbatim>\<open>ACCOUNT_NUMBER\<close> or \<^verbatim>\<open>MONEY\<close> and some segment
  between the bars has a colon and, after its first colon, a trimmed value that is
  non-empty, contains a digit, and is a substring of the raw utterance, or a substring of
  the concatenation of all digit runs of the utterance, or equal to one digit run. The
  first matching row in stored order is returned.
\<close>

theorem stage2_numeric_match:
  assumes "\<forall>r \<in> set ds. \<not> exact_match utterance r"
    and "i < length ds" "numeric_match value_matches utterance (ds ! i)"
    and "\<forall>j<i. \<not> numeric_match value_matches utterance (ds ! j)"
  shows "find_intent_response ds utterance = Some (match_of (ds ! i))"
  using assms by (rule find_intent_response_stage2)

theorem stage2_numeric_match_witness:
  "find_intent_response
     [\<lparr>row_text = Some ''block my card'', row_intent = Some ''block_card'',
       row_response = Some ''Blocked'', row_entities = Some ''PERSON:7''\<rparr>,
      \<lparr>row_text = Some ''account info'', row_intent = Some ''check_balance'',
       row_response = Some '''', row_entities = Some ''ACCOUNT_NUMBER:123456|MONEY:500''\<rparr>]
     ''balance for 123456 7'' =
   Some \<lparr>intent = ''check_balance'', response = '''',
         entities = ''ACCOUNT_NUMBER:123456|MONEY:500''\<rparr>"
proof -
  let ?ds = "[\<lparr>row_text = Some ''block my card'', row_intent = Some ''block_card'',
       row_response = Some ''Blocked'', row_entities = Some ''PERSON:7''\<rparr>,
      \<lparr>row_text = Some ''account info'', row_intent = Some ''check_balance'',
       row_response = Some '''', row_entities = Some ''ACCOUNT_NUMBER:123456|MONEY:500''\<rparr>]"
  have 0: "\<forall>r \<in> set ?ds. \<not> exact_match ''balance for 123456 7'' r"
    by code_simp
  have 1: "(1::nat) < length ?ds" by simp
  have 2: "numeric_match value_matches ''balance for 123456 7'' (?ds ! 1)"
    by code_simp
  have "\<not> numeric_match value_matches ''balance for 123456 7'' (?ds ! 0)"
    by code_simp
  then have 3: "\<forall>j<1::nat. \<not> numeric_match value_matches ''balance for 123456 7'' (?ds ! j)"
    by simp
  from stage2_numeric_match [OF 0 1 2 3] show ?thesis
    by (simp add: match_of_def or_empty_def)
qed

text \<open>
  C3. Stage 3, token overlap. For an utterance that no row matches in stage 1 or stage 2,
  the score of a row is the number of tokens shared by the normalized utterance and the
  normalized text of the row, not divided by anything. If every score is 0 the matcher
  returns absent. Otherwise it returns the row with the largest score, and among rows
  with that score the first one in stored order: a row whose score is at least 1, not
  exceeded by any row, and not reached by any earlier row.
\<close>

theorem stage3_token_overlap:
  assumes "\<forall>r \<in> set ds. \<not> exact_match utterance r"
    and "\<forall>r \<in> set ds. \<not> numeric_match value_matches utterance r"
  shows "((\<forall>r \<in> set ds. token_overlap utterance r = 0) \<longrightarrow>
            find_intent_response ds utterance = None) \<and>
         (\<forall>i<length ds.
            1 \<le> token_overlap utterance (ds ! i) \<and>
            (\<forall>j<length ds. token_overlap utterance (ds ! j) \<le> token_overlap utterance (ds ! i)) \<and>
            (\<forall>j<i. token_overlap utterance (ds ! j) < token_overlap utterance (ds ! i)) \<longrightarrow>
            find_intent_response ds utterance = Some (match_of (ds ! i)))"
proof (intro conjI allI impI)
  assume "\<forall>r \<in> set ds. token_overlap utterance r = 0"
  then have "stage3 (normalize_text utterance) ds = None" by (rule stage3_absent)
  with find_intent_response_stage3 [OF assms]
  show "find_intent_response ds utterance = None" by auto
next
  fix i
  assume i: "i < length ds"
    and b: "1 \<le> token_overlap utterance (ds ! i) \<and>
      (\<forall>j<length ds. token_overlap utterance (ds ! j) \<le> token_overlap utterance (ds ! i)) \<and>
      (\<forall>j<i. token_overlap utterance (ds ! j) < token_overlap utterance (ds ! i))"
  then have s3: "stage3 (normalize_text utterance) ds = Some (match_of (ds ! i))"
    by (intro stage3_best) auto
  have "utterance \<noteq> []"
  proof
    assume "utterance = []"
    then have "token_overlap utterance (ds ! i) = 0"
      by (simp add: token_overlap_def normalize_text_def split_ws_def)
    with b show False by simp
  qed
  with find_intent_response_stage3 [OF assms] s3
  show "find_intent_response ds utterance = Some (match_of (ds ! i))" by auto
qed

theorem stage3_token_overlap_witness:
  "find_intent_response
     [\<lparr>row_text = Some ''card block request'', row_intent = Some ''block_card'',
       row_response = Some ''Blocked'', row_entities = Some ''''\<rparr>,
      \<lparr>row_text = Some ''loan inquiry details'', row_intent = Some ''loan_inquiry'',
       row_response = Some ''Loans'', row_entities = Some ''''\<rparr>,
      \<lparr>row_text = Some ''about my loan and more about it'', row_intent = Some ''long_row'',
       row_response = Some ''Long'', row_entities = Some ''''\<rparr>,
      \<lparr>row_text = Some ''loan about'', row_intent = Some ''late_tie'',
       row_response = Some ''Tie'', row_entities = Some ''''\<rparr>]
     ''tell me about loan'' =
   Some \<lparr>intent = ''long_row'', response = ''Long'', entities = ''''\<rparr> \<and>
   find_intent_response
     [\<lparr>row_text = Some ''card block request'', row_intent = Some ''block_card'',
       row_response = Some ''Blocked'', row_entities = Some ''MONEY''\<rparr>]
     ''how is the weather'' = None"
proof -
  let ?ds = "[\<lparr>row_text = Some ''card block request'', row_intent = Some ''block_card'',
       row_response = Some ''Blocked'', row_entities = Some ''''\<rparr>,
      \<lparr>row_text = Some ''loan inquiry details'', row_intent = Some ''loan_inquiry'',
       row_response = Some ''Loans'', row_entities = Some ''''\<rparr>,
      \<lparr>row_text = Some ''about my loan and more about it'', row_intent = Some ''long_row'',
       row_response = Some ''Long'', row_entities = Some ''''\<rparr>,
      \<lparr>row_text = Some ''loan about'', row_intent = Some ''late_tie'',
       row_response = Some ''Tie'', row_entities = Some ''''\<rparr>]"
  let ?u = "''tell me about loan''"
  have 0: "\<forall>r \<in> set ?ds. \<not> exact_match ?u r"
    by code_simp
  have 1: "\<forall>r \<in> set ?ds. \<not> numeric_match value_matches ?u r"
    by code_simp
  have s: "token_overlap ?u (?ds ! 0) = 0" "token_overlap ?u (?ds ! Suc 0) = 1"
    "token_overlap ?u (?ds ! Suc (Suc 0)) = 2" "token_overlap ?u (?ds ! Suc (Suc (Suc 0))) = 2"
    by code_simp+
  have 2: "(2::nat) < length ?ds" by simp
  have 3: "1 \<le> token_overlap ?u (?ds ! 2) \<and>
      (\<forall>j<length ?ds. token_overlap ?u (?ds ! j) \<le> token_overlap ?u (?ds ! 2)) \<and>
      (\<forall>j<2. token_overlap ?u (?ds ! j) < token_overlap ?u (?ds ! 2))"
    using s by (simp add: All_less_Suc numeral_2_eq_2 del: nth_Cons_Suc nth_Cons_0 One_nat_def)
  from stage3_token_overlap [OF 0 1] 2 3
  have "find_intent_response ?ds ?u = Some (match_of (?ds ! 2))" by blast
  then have matched: "find_intent_response ?ds ?u =
      Some \<lparr>intent = ''long_row'', response = ''Long'', entities = []\<rparr>"
    by (simp add: match_of_def or_empty_def)
  let ?cs = "[\<lparr>row_text = Some ''card block request'', row_intent = Some ''block_card'',
       row_response = Some ''Blocked'', row_entities = Some ''MONEY''\<rparr>]"
  let ?w = "''how is the weather''"
  have 4: "\<forall>r \<in> set ?cs. \<not> exact_match ?w r" by code_simp
  have 5: "\<forall>r \<in> set ?cs. \<not> numeric_match value_matches ?w r" by code_simp
  have 6: "\<forall>r \<in> set ?cs. token_overlap ?w r = 0" by code_simp
  from stage3_token_overlap [OF 4 5] 6
  have absent: "find_intent_response ?cs ?w = None" by blast
  from matched absent show ?thesis by (intro conjI)
qed

text \<open>
  The example of the specification for stage 3: the loan row is selected. It shares one
  token with the utterance, \<^verbatim>\<open>loan\<close>, and the card row shares none.
\<close>

lemma stage3_loan_example:
  "find_intent_response
     [\<lparr>row_text = Some ''loan inquiry details'', row_intent = Some ''loan_inquiry'',
       row_response = None, row_entities = None\<rparr>,
      \<lparr>row_text = Some ''card block request'', row_intent = Some ''block_card'',
       row_response = None, row_entities = None\<rparr>]
     ''tell me about loan'' =
   Some \<lparr>intent = ''loan_inquiry'', response = [], entities = []\<rparr> \<and>
   token_overlap ''tell me about loan''
     \<lparr>row_text = Some ''loan inquiry details'', row_intent = Some ''loan_inquiry'',
      row_response = None, row_entities = None\<rparr> = 1 \<and>
   token_overlap ''tell me about loan''
     \<lparr>row_text = Some ''card block request'', row_intent = Some ''block_card'',
      row_response = None, row_entities = None\<rparr> = 0"
  by code_simp

section \<open>The entity extractor\<close>



lemma annotation_loop_pairs:
  "annotation_loop segs e =
   \<lparr>account_number =
      (case map_of (rev (filter (\<lambda>kv. snd kv \<noteq> [])
              (map (\<lambda>p. (upper (strip (fst (split_colon p))), strip (snd (split_colon p))))
                 (filter (\<lambda>p. CHR '':'' \<in> set p) segs)))) ''ACCOUNT_NUMBER'' of
         None \<Rightarrow> account_number e | Some v \<Rightarrow> Some v),
    amount =
      (case map_of (rev (filter (\<lambda>kv. snd kv \<noteq> [])
              (map (\<lambda>p. (upper (strip (fst (split_colon p))), strip (snd (split_colon p))))
                 (filter (\<lambda>p. CHR '':'' \<in> set p) segs)))) ''MONEY'' of
         None \<Rightarrow> amount e | Some v \<Rightarrow> Some v),
    person =
      (case map_of (rev (filter (\<lambda>kv. snd kv \<noteq> [])
              (map (\<lambda>p. (upper (strip (fst (split_colon p))), strip (snd (split_colon p))))
                 (filter (\<lambda>p. CHR '':'' \<in> set p) segs)))) ''PERSON'' of
         None \<Rightarrow> person e | Some v \<Rightarrow> Some v)\<rparr>"
proof (induction segs arbitrary: e)
  case Nil
  then show ?case by simp
next
  case (Cons ent segs)
  show ?case
    by (simp add: Cons.IH Let_def map_add_def split: option.splits)
qed

lemma annotation_loop_explicit:
  "annotation_loop (split_on CHR ''|'' ann) no_entities =
   \<lparr>account_number = explicit_value ''ACCOUNT_NUMBER'' ann,
    amount = explicit_value ''MONEY'' ann,
    person = explicit_value ''PERSON'' ann\<rparr>"
  by (simp add: annotation_loop_pairs explicit_value_def annotation_pairs_def no_entities_def
      split: option.splits)

lemma extract_entities_fields:
  assumes "ann \<noteq> []"
  shows "account_number (extract_entities u ann) =
           (case explicit_value ''ACCOUNT_NUMBER'' ann of
              Some v \<Rightarrow> Some v | None \<Rightarrow> search_word digits6 u)"
    and "amount (extract_entities u ann) =
           (case explicit_value ''MONEY'' ann of
              Some v \<Rightarrow> Some v | None \<Rightarrow> search_word digits1 u)"
    and "person (extract_entities u ann) =
           (case explicit_value ''PERSON'' ann of
              Some v \<Rightarrow> Some v | None \<Rightarrow> search_word letters2 u)"
  using assms
  by (simp_all add: extract_entities_def annotation_loop_explicit Let_def split: option.splits)

lemma extract_entities_empty: "extract_entities u [] = no_entities"
  by (simp add: extract_entities_def)


text \<open>
  C4 as stated fails twice. First, \<^verbatim>\<open>extract_entities\<close> returns the empty dictionary at
  once when the annotation is empty, so the utterance \<^verbatim>\<open>my account 123456789\<close> with no
  annotation yields neither an amount nor an account number, where the extractor of the
  specification yields both. Second, the fallback patterns stand between \<^verbatim>\<open>\b\<close>
  boundaries: a run of digits that touches a letter or an underscore is not a match. In
  \<^verbatim>\<open>id x123456 pay 77\<close> the code finds no account number and the amount \<^verbatim>\<open>77\<close>, where
  the first run of six digits and the first run of digits is \<^verbatim>\<open>123456\<close>.
\<close>

theorem extract_entities_counterexample:
  "extract_entities ''my account 123456789'' [] =
     \<lparr>account_number = None, amount = None, person = None\<rparr> \<and>
   extract_spec ''my account 123456789'' [] =
     \<lparr>account_number = Some ''123456789'', amount = Some ''123456789'', person = Some ''my''\<rparr> \<and>
   extract_entities ''id x123456 pay 77'' ''ACCOUNT_NUMBER'' =
     \<lparr>account_number = None, amount = Some ''77'', person = Some ''id''\<rparr> \<and>
   extract_spec ''id x123456 pay 77'' ''ACCOUNT_NUMBER'' =
     \<lparr>account_number = Some ''123456'', amount = Some ''123456'', person = Some ''id''\<rparr>"
  by code_simp

text \<open>
  C4, amended. An empty annotation yields no entity. For a non-empty annotation the
  extractor first parses it (split at the bars, keep the segments with a colon, trim and
  upper-case the key, trim the value) and sets \<^verbatim>\<open>account_number\<close>, \<^verbatim>\<open>amount\<close> and
  \<^verbatim>\<open>person\<close> from the keys \<^verbatim>\<open>ACCOUNT_NUMBER\<close>, \<^verbatim>\<open>MONEY\<close> and \<^verbatim>\<open>PERSON\<close> with
  non-empty values, the last such value of a key winning; these explicit values take
  precedence. Each key still unset falls back to the utterance: \<^verbatim>\<open>account_number\<close> is
  the first word (maximal run of letters, digits and underscores) that consists of six or
  more digits, \<^verbatim>\<open>amount\<close> the first word that consists of digits, \<^verbatim>\<open>person\<close> the first
  word that consists of two or more letters. The utterance \<^verbatim>\<open>my account 123456789\<close> with
  the value-less annotation \<^verbatim>\<open>ACCOUNT_NUMBER\<close> yields the amount and the account number
  \<^verbatim>\<open>123456789\<close>.
\<close>

theorem extract_entities_amended:
  "extract_entities utterance [] = no_entities \<and>
   (ann \<noteq> [] \<longrightarrow>
      account_number (extract_entities utterance ann) =
        (case explicit_value ''ACCOUNT_NUMBER'' ann of
           Some v \<Rightarrow> Some v | None \<Rightarrow> find digits6 (runs is_word utterance)) \<and>
      amount (extract_entities utterance ann) =
        (case explicit_value ''MONEY'' ann of
           Some v \<Rightarrow> Some v | None \<Rightarrow> find digits1 (runs is_word utterance)) \<and>
      person (extract_entities utterance ann) =
        (case explicit_value ''PERSON'' ann of
           Some v \<Rightarrow> Some v | None \<Rightarrow> find letters2 (runs is_word utterance))) \<and>
   extract_entities ''my account 123456789'' ''ACCOUNT_NUMBER'' =
     \<lparr>account_number = Some ''123456789'', amount = Some ''123456789'', person = Some ''my''\<rparr>"
proof (intro conjI impI)
  show "extract_entities utterance [] = no_entities" by (rule extract_entities_empty)
  show "extract_entities ''my account 123456789'' ''ACCOUNT_NUMBER'' =
     \<lparr>account_number = Some ''123456789'', amount = Some ''123456789'', person = Some ''my''\<rparr>"
    by code_simp
qed (simp_all add: extract_entities_fields search_word_def split: option.splits)

theorem extract_entities_amended_witness:
  "account_number (extract_entities ''send 250 to Ravi from 987654321'' ''MONEY:100|PERSON|money: 300 '') =
     Some ''987654321'' \<and>
   amount (extract_entities ''send 250 to Ravi from 987654321'' ''MONEY:100|PERSON|money: 300 '') =
     Some ''300'' \<and>
   person (extract_entities ''send 250 to Ravi from 987654321'' ''MONEY:100|PERSON|money: 300 '') =
     Some ''send''"
proof -
  let ?u = "''send 250 to Ravi from 987654321''"
  let ?a = "''MONEY:100|PERSON|money: 300 ''"
  have ne: "?a \<noteq> []" by simp
  have v: "explicit_value ''ACCOUNT_NUMBER'' ?a = None" "explicit_value ''MONEY'' ?a = Some ''300''"
    "explicit_value ''PERSON'' ?a = None"
    by code_simp+
  have f: "find digits6 (runs is_word ?u) = Some ''987654321''"
    "find letters2 (runs is_word ?u) = Some ''send''"
    by code_simp+
  from extract_entities_amended [of ?u ?a] ne show ?thesis
    by (simp only: v f option.case) blast
qed

section \<open>Reply synthesis\<close>

lemma balance_reply_nonempty [simp]: "balance_reply v \<noteq> []"
  by (simp add: balance_reply_def money_bag_def)








section \<open>The corpus store and the chat turn\<close>

lemma list_ex_duplicate: "list_ex (is_duplicate t i e) ds \<longleftrightarrow> 0 < stored t i e ds"
  by (induction ds) (auto simp: is_duplicate_def stored_def key_of_def)

lemma stored_append [simp]: "stored t i e (ds @ ds') = stored t i e ds + stored t i e ds'"
  by (simp add: stored_def)

lemma stored_new_row [simp]: "stored t i e [new_row t i r e] = 1"
  by (simp add: stored_def key_of_def new_row_def)

lemma stored_zero_iff: "stored t i e ds = 0 \<longleftrightarrow> (Some t, Some i, Some e) \<notin> key_of ` set ds"
  by (induction ds) (auto simp: stored_def)

lemma append_ok_duplicate:
  "0 < stored t i e (dataset st) \<Longrightarrow> append_to_dataset_row Io_ok st t i r e = (Inr False, st)"
  by (simp add: append_to_dataset_row_def list_ex_duplicate Let_def)

lemma append_ok_new:
  "stored t i e (dataset st) = 0 \<Longrightarrow>
   append_to_dataset_row Io_ok st t i r e =
     (Inr True, st\<lparr>dataset := dataset st @ [new_row t i r e],
                    csv_file := csv_file st @ (if csv_file st = [] then [csv_header] else []) @
                                [[t, i, r, e]]\<rparr>)"
  by (simp add: append_to_dataset_row_def list_ex_duplicate Let_def)

lemma append_dataset_cases:
  "dataset (snd (append_to_dataset_row io st t i r e)) = dataset st \<or>
   (stored t i e (dataset st) = 0 \<and> io = Io_ok \<and>
    dataset (snd (append_to_dataset_row io st t i r e)) = dataset st @ [new_row t i r e])"
  by (cases io) (auto simp: append_to_dataset_row_def list_ex_duplicate Let_def)


lemma append_user_data [simp]:
  "user_data (snd (append_to_dataset_row io st t i r e)) = user_data st"
  "user_data_file (snd (append_to_dataset_row io st t i r e)) = user_data_file st"
  by (cases io; simp add: append_to_dataset_row_def Let_def)+

lemma append_keeps_distinct:
  assumes "distinct (map key_of (drop n (dataset st)))"
  shows "distinct (map key_of (drop n (dataset (snd (append_to_dataset_row io st t i r e)))))"
proof -
  from append_dataset_cases [of io st t i r e] show ?thesis
  proof
    assume "dataset (snd (append_to_dataset_row io st t i r e)) = dataset st"
    with assms show ?thesis by simp
  next
    assume a: "stored t i e (dataset st) = 0 \<and> io = Io_ok \<and>
      dataset (snd (append_to_dataset_row io st t i r e)) = dataset st @ [new_row t i r e]"
    then have "(Some t, Some i, Some e) \<notin> key_of ` set (dataset st)"
      by (simp add: stored_zero_iff)
    then have "key_of (new_row t i r e) \<notin> key_of ` set (drop n (dataset st))"
      by (auto simp: key_of_def new_row_def dest: in_set_dropD)
    with assms a show ?thesis by (cases "n \<le> length (dataset st)") auto
  qed
qed

text \<open>
  C6. Append deduplication, when the file system does not fail. If an example with the
  same text, intent and entities is already in memory, the append changes nothing and
  returns \<^verbatim>\<open>False\<close>. Otherwise it returns \<^verbatim>\<open>True\<close>, adds exactly one example at the end
  of the in-memory sequence and writes its record to the file (after the header, when the
  file was empty). Appending a tuple that is not yet stored twice leaves exactly one
  example with it, the second call returning \<^verbatim>\<open>False\<close>. If no two of the examples after
  the first \<open>n\<close> (the loaded ones) share a key, the same holds after the append, whatever
  the file system does.
\<close>

theorem append_deduplicates:
  "(0 < stored t i e (dataset st) \<longrightarrow>
      append_to_dataset_row Io_ok st t i r e = (Inr False, st)) \<and>
   (stored t i e (dataset st) = 0 \<longrightarrow>
      append_to_dataset_row Io_ok st t i r e =
        (Inr True, st\<lparr>dataset := dataset st @ [new_row t i r e],
                       csv_file := csv_file st @ (if csv_file st = [] then [csv_header] else []) @
                                   [[t, i, r, e]]\<rparr>) \<and>
      fst (append_to_dataset_row Io_ok (snd (append_to_dataset_row Io_ok st t i r e)) t i r' e) =
        Inr False \<and>
      stored t i e (dataset (snd (append_to_dataset_row Io_ok
          (snd (append_to_dataset_row Io_ok st t i r e)) t i r' e))) = 1) \<and>
   (distinct (map key_of (drop n (dataset st))) \<longrightarrow>
      distinct (map key_of (drop n (dataset (snd (append_to_dataset_row io st t i r e))))))"
proof (intro conjI impI)
  assume "0 < stored t i e (dataset st)"
  then show "append_to_dataset_row Io_ok st t i r e = (Inr False, st)"
    by (rule append_ok_duplicate)
next
  assume z: "stored t i e (dataset st) = 0"
  let ?st1 = "st\<lparr>dataset := dataset st @ [new_row t i r e],
                  csv_file := csv_file st @ (if csv_file st = [] then [csv_header] else []) @
                              [[t, i, r, e]]\<rparr>"
  from z show 1: "append_to_dataset_row Io_ok st t i r e = (Inr True, ?st1)"
    by (rule append_ok_new)
  from z have s1: "0 < stored t i e (dataset ?st1)" by simp
  then have 2: "append_to_dataset_row Io_ok ?st1 t i r' e = (Inr False, ?st1)"
    by (rule append_ok_duplicate)
  show "fst (append_to_dataset_row Io_ok (snd (append_to_dataset_row Io_ok st t i r e)) t i r' e) =
        Inr False"
    by (simp only: 1 2 fst_conv snd_conv)
  from z show "stored t i e (dataset (snd (append_to_dataset_row Io_ok
          (snd (append_to_dataset_row Io_ok st t i r e)) t i r' e))) = 1"
    by (simp only: 1 2 fst_conv snd_conv) simp
next
  assume "distinct (map key_of (drop n (dataset st)))"
  then show "distinct (map key_of (drop n (dataset (snd (append_to_dataset_row io st t i r e)))))"
    by (rule append_keeps_distinct)
qed


theorem append_deduplicates_witness:
  "append_to_dataset_row Io_ok
     \<lparr>dataset = [\<lparr>row_text = Some ''balance for 123456'', row_intent = Some ''check_balance'',
                   row_response = Some ''old'', row_entities = Some ''MONEY:500''\<rparr>],
      csv_file = [], user_data = Map.empty, user_data_file = (Map.empty :: string \<rightharpoonup> unit user_facts)\<rparr>
     ''balance for 123456'' ''check_balance'' ''new'' ''MONEY:500'' =
   (Inr False,
     \<lparr>dataset = [\<lparr>row_text = Some ''balance for 123456'', row_intent = Some ''check_balance'',
                   row_response = Some ''old'', row_entities = Some ''MONEY:500''\<rparr>],
      csv_file = [], user_data = Map.empty, user_data_file = Map.empty\<rparr>) \<and>
   fst (append_to_dataset_row Io_ok
     \<lparr>dataset = [\<lparr>row_text = Some ''balance for 123456'', row_intent = Some ''check_balance'',
                   row_response = Some ''old'', row_entities = Some ''MONEY:500''\<rparr>],
      csv_file = [], user_data = Map.empty, user_data_file = (Map.empty :: string \<rightharpoonup> unit user_facts)\<rparr>
     ''balance for 123456'' ''check_balance'' ''new'' ''MONEY:700'') = Inr True \<and>
   distinct (map key_of (drop 0 (dataset (snd (append_to_dataset_row (Write_raises 1)
     \<lparr>dataset = [\<lparr>row_text = Some ''balance for 123456'', row_intent = Some ''check_balance'',
                   row_response = Some ''old'', row_entities = Some ''MONEY:500''\<rparr>],
      csv_file = [], user_data = Map.empty, user_data_file = (Map.empty :: string \<rightharpoonup> unit user_facts)\<rparr>
     ''balance for 123456'' ''check_balance'' ''new'' ''MONEY:700'')))))"
proof -
  let ?st = "\<lparr>dataset = [\<lparr>row_text = Some ''balance for 123456'', row_intent = Some ''check_balance'',
                   row_response = Some ''old'', row_entities = Some ''MONEY:500''\<rparr>],
      csv_file = [], user_data = Map.empty, user_data_file = (Map.empty :: string \<rightharpoonup> unit user_facts)\<rparr>"
  have a: "0 < stored ''balance for 123456'' ''check_balance'' ''MONEY:500'' (dataset ?st)"
    by (simp add: stored_def key_of_def)
  have b: "stored ''balance for 123456'' ''check_balance'' ''MONEY:700'' (dataset ?st) = 0"
    by (simp add: stored_def key_of_def)
  have c: "distinct (map key_of (drop 0 (dataset ?st)))" by simp
  from append_deduplicates [of "''balance for 123456''" "''check_balance''" "''MONEY:500''" ?st "''new''"] a
  have 1: "append_to_dataset_row Io_ok ?st ''balance for 123456'' ''check_balance'' ''new'' ''MONEY:500'' =
    (Inr False, ?st)" by blast
  from append_deduplicates [of "''balance for 123456''" "''check_balance''" "''MONEY:700''" ?st "''new''"] b
  have 2: "fst (append_to_dataset_row Io_ok ?st ''balance for 123456'' ''check_balance'' ''new'' ''MONEY:700'') =
    Inr True" by simp
  from append_deduplicates [of "''balance for 123456''" "''check_balance''" "''MONEY:700''" ?st "''new''" _ 0
      "Write_raises 1"] c
  have 3: "distinct (map key_of (drop 0 (dataset (snd (append_to_dataset_row (Write_raises 1) ?st
      ''balance for 123456'' ''check_balance'' ''new'' ''MONEY:700'')))))" by blast
  from 1 2 3 show ?thesis by (intro conjI)
qed

lemma find_intent_response_empty [simp]: "find_intent_response ds [] = None"
  by (simp add: find_intent_response_def)

lemma chat_no_match:
  assumes "find_intent_response (dataset st) (strip message) = None"
  shows "chat io user uid message st =
     (\<lparr>reply = fallback_reply, reply_intent = ''out_of_scope'', intent_color = ''#757575''\<rparr>,
      st\<lparr>user_data := (user_data st)(uid \<mapsto>
            add_conversation (strip message) fallback_reply ''out_of_scope''
              (case user_data st uid of None \<Rightarrow> new_facts user | Some f \<Rightarrow> f)),
         user_data_file := (user_data st)(uid \<mapsto>
            add_conversation (strip message) fallback_reply ''out_of_scope''
              (case user_data st uid of None \<Rightarrow> new_facts user | Some f \<Rightarrow> f))\<rparr>)"
proof -
  have "get_intent_color ''out_of_scope'' = ''#757575''"
    by (simp add: get_intent_color_def intent_colors_def)
  with assms show ?thesis by (simp add: chat_def Let_def save_user_data_def)
qed







text \<open>
  C10. The no-match path and the user facts. For a user who has a record and a message
  that the matcher does not match, the turn puts one entry, of the trimmed message, the
  fallback reply and the intent \<^verbatim>\<open>out_of_scope\<close>, at the end of the conversations of
  the record and changes no other field of it; the records of the other users, the
  in-memory corpus and the corpus file stay as they are, so nothing is extracted and no
  append is tried.
\<close>

theorem no_match_frame:
  assumes "user_data st uid = Some facts"
    and "find_intent_response (dataset st) (strip message) = None"
  shows "user_data (snd (chat io user uid message st)) uid =
           Some (facts\<lparr>uf_conversations := uf_conversations facts @
                   [\<lparr>conv_user = strip message, conv_bot = fallback_reply,
                     conv_intent = ''out_of_scope''\<rparr>]\<rparr>) \<and>
         (\<forall>other. other \<noteq> uid \<longrightarrow>
            user_data (snd (chat io user uid message st)) other = user_data st other) \<and>
         dataset (snd (chat io user uid message st)) = dataset st \<and>
         csv_file (snd (chat io user uid message st)) = csv_file st"
  using assms by (simp add: chat_no_match add_conversation_def)

theorem no_match_frame_witness:
  "user_data (snd (chat Io_ok \<lparr>db_account_number = ''42'', db_balance = ()\<rparr> ''1'' '' how is the weather ''
     \<lparr>dataset = [\<lparr>row_text = Some ''check balance'', row_intent = Some ''check_balance'',
                   row_response = Some ''Sure'', row_entities = Some ''MONEY:500''\<rparr>],
      csv_file = [],
      user_data = [''1'' \<mapsto> \<lparr>uf_account_number = ''42'', uf_balance = (),
         uf_conversations = [\<lparr>conv_user = ''hi'', conv_bot = ''Hello'', conv_intent = ''greet''\<rparr>],
         uf_amount = Some ''500'', uf_person = None, uf_last_amount = Some ''500'',
         uf_last_recipient = Some ''Ravi''\<rparr>],
      user_data_file = Map.empty\<rparr>)) ''1'' =
   Some \<lparr>uf_account_number = ''42'', uf_balance = (),
         uf_conversations = [\<lparr>conv_user = ''hi'', conv_bot = ''Hello'', conv_intent = ''greet''\<rparr>,
            \<lparr>conv_user = ''how is the weather'', conv_bot = fallback_reply,
             conv_intent = ''out_of_scope''\<rparr>],
         uf_amount = Some ''500'', uf_person = None, uf_last_amount = Some ''500'',
         uf_last_recipient = Some ''Ravi''\<rparr> \<and>
   user_data (snd (chat Io_ok \<lparr>db_account_number = ''42'', db_balance = ()\<rparr> ''1'' '' how is the weather ''
     \<lparr>dataset = [\<lparr>row_text = Some ''check balance'', row_intent = Some ''check_balance'',
                   row_response = Some ''Sure'', row_entities = Some ''MONEY:500''\<rparr>],
      csv_file = [],
      user_data = [''1'' \<mapsto> \<lparr>uf_account_number = ''42'', uf_balance = (),
         uf_conversations = [\<lparr>conv_user = ''hi'', conv_bot = ''Hello'', conv_intent = ''greet''\<rparr>],
         uf_amount = Some ''500'', uf_person = None, uf_last_amount = Some ''500'',
         uf_last_recipient = Some ''Ravi''\<rparr>],
      user_data_file = Map.empty\<rparr>)) ''2'' = None"
proof -
  let ?facts = "\<lparr>uf_account_number = ''42'', uf_balance = (),
         uf_conversations = [\<lparr>conv_user = ''hi'', conv_bot = ''Hello'', conv_intent = ''greet''\<rparr>],
         uf_amount = Some ''500'', uf_person = None, uf_last_amount = Some ''500'',
         uf_last_recipient = Some ''Ravi''\<rparr>"
  let ?st = "\<lparr>dataset = [\<lparr>row_text = Some ''check balance'', row_intent = Some ''check_balance'',
                   row_response = Some ''Sure'', row_entities = Some ''MONEY:500''\<rparr>],
      csv_file = [], user_data = [''1'' \<mapsto> ?facts],
      user_data_file = (Map.empty :: string \<rightharpoonup> unit user_facts)\<rparr>"
  have a: "user_data ?st ''1'' = Some ?facts" by simp
  have s: "strip '' how is the weather '' = ''how is the weather''" by code_simp
  have "find_intent_response [\<lparr>row_text = Some ''check balance'', row_intent = Some ''check_balance'',
                   row_response = Some ''Sure'', row_entities = Some ''MONEY:500''\<rparr>]
          ''how is the weather'' = None"
    by code_simp
  then have b: "find_intent_response (dataset ?st) (strip '' how is the weather '') = None"
    by (simp only: s) simp
  have c: "''2'' \<noteq> ''1''" by simp
  note t = no_match_frame [OF a b, of Io_ok "\<lparr>db_account_number = ''42'', db_balance = ()\<rparr>"]
  from t have "\<forall>other. other \<noteq> ''1'' \<longrightarrow>
      user_data (snd (chat Io_ok \<lparr>db_account_number = ''42'', db_balance = ()\<rparr> ''1''
        '' how is the weather '' ?st)) other = user_data ?st other"
    by (elim conjE)
  then have "''2'' \<noteq> ''1'' \<longrightarrow>
      user_data (snd (chat Io_ok \<lparr>db_account_number = ''42'', db_balance = ()\<rparr> ''1''
        '' how is the weather '' ?st)) ''2'' = user_data ?st ''2''"
    by (rule spec)
  with c have 2: "user_data (snd (chat Io_ok \<lparr>db_account_number = ''42'', db_balance = ()\<rparr> ''1''
        '' how is the weather '' ?st)) ''2'' = user_data ?st ''2''"
    by (rule rev_mp)
  from t have 1: "user_data (snd (chat Io_ok \<lparr>db_account_number = ''42'', db_balance = ()\<rparr> ''1''
        '' how is the weather '' ?st)) ''1'' =
      Some (?facts\<lparr>uf_conversations := uf_conversations ?facts @
        [\<lparr>conv_user = strip '' how is the weather '', conv_bot = fallback_reply,
          conv_intent = ''out_of_scope''\<rparr>]\<rparr>)"
    by (rule conjunct1)
  from 1 2 show ?thesis by (simp only: s) simp
qed

subsection \<open>Stored responses are trimmed\<close>

text \<open>
  The hypothesis of the theorem on reply synthesis holds for every match of a running
  program: \<^verbatim>\<open>load_dataset\<close> trims every response, \<^verbatim>\<open>chat\<close> stores only trimmed
  replies, and a match carries the response of a row of the corpus.
\<close>

lemma balance_reply_trimmed: "strip (balance_reply v) = balance_reply v"
proof -
  have "last (balance_reply v) = CHR ''.''" by (simp add: balance_reply_def)
  then show ?thesis
    by (intro strip_id) (simp_all add: balance_reply_def money_bag_def non_space_def whitespace_def)
qed

lemma build_reply_trimmed: "strip (fst (build_reply ds m ents u)) = fst (build_reply ds m ents u)"
  by (auto simp: build_reply_def Let_def strip_idem balance_reply_trimmed
      split: option.splits list.splits)

lemma build_reply_trimmed_pair: "build_reply ds m ents u = (x, y) \<Longrightarrow> strip x = x"
  using build_reply_trimmed [of ds m ents u] by simp

lemma load_dataset_trimmed: "responses_trimmed (load_dataset rows)"
  by (auto simp: responses_trimmed_def load_dataset_def list_all_iff load_field_def or_empty_def
      strip_idem split: raw_field.splits)

lemma append_trimmed:
  assumes "responses_trimmed (dataset st)" "strip r = r"
  shows "responses_trimmed (dataset (snd (append_to_dataset_row io st t i r e)))"
  using append_dataset_cases [of io st t i r e] assms
  by (auto simp: responses_trimmed_def new_row_def or_empty_def)

lemma chat_trimmed:
  assumes "responses_trimmed (dataset st)"
  shows "responses_trimmed (dataset (snd (chat io user uid message st)))"
  using assms
  by (auto simp: chat_def Let_def save_user_data_def
      split: option.splits prod.splits
      intro!: append_trimmed dest: build_reply_trimmed_pair)

lemma stage1_row: "stage1 mn ds = Some m \<Longrightarrow> \<exists>r \<in> set ds. m = match_of r"
  by (induction ds) (auto split: if_splits)

lemma stage2_row: "stage2 um md dc ds = Some m \<Longrightarrow> \<exists>r \<in> set ds. m = match_of r"
  by (induction ds) (auto simp: Let_def split: if_splits)

lemma stage3_loop_row:
  "stage3_loop toks ds (b, s) = (Some r, s') \<Longrightarrow> b = Some r \<or> r \<in> set ds"
  by (induction ds arbitrary: b s) (auto split: if_splits)

lemma stage3_row: "stage3 mn ds = Some m \<Longrightarrow> \<exists>r \<in> set ds. m = match_of r"
  by (auto simp: stage3_def split: prod.splits option.splits if_splits dest: stage3_loop_row)

lemma find_intent_response_row:
  "find_intent_response ds u = Some m \<Longrightarrow> \<exists>r \<in> set ds. m = match_of r"
  by (auto simp: find_intent_response_def Let_def split: if_splits option.splits
      dest: stage1_row stage2_row stage3_row)

lemma match_response_trimmed:
  assumes "responses_trimmed ds" "find_intent_response ds u = Some m"
  shows "strip (response m) = response m"
proof -
  from assms(2) obtain r where "r \<in> set ds" "m = match_of r"
    by (auto dest: find_intent_response_row)
  with assms(1) show ?thesis by (simp add: responses_trimmed_def list_all_iff match_of_def)
qed

end
